theory Spec2Isabelle
  imports Complex_Main "HOL-Library.AList"
begin

section \<open>JavaScript values shared by both components\<close>

text \<open>
  The two components verified here are the session history store
  (\<^verbatim>\<open>src/stores/editor-store.ts\<close>) and the image cache
  (\<^verbatim>\<open>src/services/cache/image-cache.ts\<close>).

  Numbers of the source that hold sizes, indices and millisecond timestamps are integers
  far below \<open>2^53\<close>, where JavaScript arithmetic is exact; they are modelled as \<open>int\<close>.
  An exception is a value of \<open>js_error\<close>.
\<close>

datatype js_error =
    TypeError
  | SyntaxError
  | IOError string
  | Error string

text \<open>
  \<^verbatim>\<open>Date.now()\<close> is an input of the environment. A \<open>clock\<close> gives the readings
  taken during one call of a store action: \<open>clk i\<close> is the value of the \<open>i\<close>-th
  evaluation of \<^verbatim>\<open>Date.now()\<close> in that call, in evaluation order.
\<close>

type_synonym clock = "nat \<Rightarrow> int"

text \<open>Template literals print an integer in decimal.\<close>

definition digit_char :: "nat \<Rightarrow> char" where
  "digit_char d = ''0123456789'' ! d"

fun string_of_nat :: "nat \<Rightarrow> string" where
  "string_of_nat n =
     (if n < 10 then [digit_char n]
      else string_of_nat (n div 10) @ [digit_char (n mod 10)])"

declare string_of_nat.simps [simp del]

definition string_of_int :: "int \<Rightarrow> string" where
  "string_of_int i =
     (if i < 0 then CHR ''-'' # string_of_nat (nat (- i)) else string_of_nat (nat i))"

text \<open>
  \<^verbatim>\<open>xs[i]\<close> is \<^verbatim>\<open>undefined\<close> outside the array, and \<^verbatim>\<open>xs.slice(0, e)\<close>
  counts a negative end from the back and clamps to the array.
\<close>

definition at_index :: "'a list \<Rightarrow> int \<Rightarrow> 'a option" where
  "at_index xs i = (if 0 \<le> i \<and> i < int (length xs) then Some (xs ! nat i) else None)"

definition slice0 :: "'a list \<Rightarrow> int \<Rightarrow> 'a list" where
  "slice0 xs e =
     (let n = int (length xs);
          k = (if e < 0 then max (n + e) 0 else min e n)
      in take (nat k) xs)"


section \<open>Session history store (editor-store.ts)\<close>

datatype AITool =
    AutoEnhance
  | BackgroundRemoval
  | ObjectRemoval
  | TapEdit
  | PortraitEnhance
  | Meet
  | Animate
  | SmartCrop

record ImageState =
  uri :: string
  timestamp :: int
  tool :: "AITool option"

record EditSession =
  session_id :: string
  originalUri :: string
  currentUri :: string
  history :: "ImageState list"
  historyIndex :: int
  createdAt :: int
  updatedAt :: int

datatype SelectionType = Brush | Lasso | Tap

record Selection =
  sel_type :: SelectionType
  points :: "(real \<times> real) list"
  maskUri :: "string option"

record EditorState =
  currentSession :: "EditSession option"
  isProcessing :: bool
  processingMessage :: string
  selectedTool :: "AITool option"
  selection :: "Selection option"
  showCompare :: bool
  showHistory :: bool
  recentEdits :: "EditSession list"

definition initial_state :: EditorState where
  "initial_state =
     \<lparr> currentSession = None, isProcessing = False, processingMessage = [],
       selectedTool = None, selection = None, showCompare = False,
       showHistory = False, recentEdits = [] \<rparr>"

definition startSession :: "clock \<Rightarrow> string \<Rightarrow> EditorState \<Rightarrow> EditorState" where
  "startSession clk imageUri s =
     (let session =
            \<lparr> session_id = ''session_'' @ string_of_int (clk 0),
              originalUri = imageUri,
              currentUri = imageUri,
              history = [\<lparr> uri = imageUri, timestamp = clk 1, tool = None \<rparr>],
              historyIndex = 0,
              createdAt = clk 2,
              updatedAt = clk 3 \<rparr>
      in s\<lparr> currentSession := Some session, selectedTool := None, selection := None,
             showCompare := False, showHistory := False \<rparr>)"

definition endSession :: "EditorState \<Rightarrow> EditorState" where
  "endSession s =
     (let s1 = (case currentSession s of
                  None \<Rightarrow> s
                | Some cs \<Rightarrow>
                    if length (history cs) > 1
                    then s\<lparr> recentEdits := take 20 (cs # recentEdits s) \<rparr>
                    else s)
      in s1\<lparr> currentSession := None, selectedTool := None, selection := None \<rparr>)"

definition applyEdit :: "clock \<Rightarrow> string \<Rightarrow> AITool \<Rightarrow> EditorState \<Rightarrow> EditorState" where
  "applyEdit clk newUri t s =
     (case currentSession s of
        None \<Rightarrow> s
      | Some cs \<Rightarrow>
          let newState = \<lparr> uri = newUri, timestamp = clk 0, tool = Some t \<rparr>;
              newHistory = slice0 (history cs) (historyIndex cs + 1) @ [newState]
          in s\<lparr> currentSession :=
                  Some (cs\<lparr> currentUri := newUri,
                            history := newHistory,
                            historyIndex := int (length newHistory) - 1,
                            updatedAt := clk 1 \<rparr>) \<rparr>)"

text \<open>
  \<^verbatim>\<open>currentSession.history[newIndex].uri\<close> throws a TypeError when \<^verbatim>\<open>newIndex\<close> is
  outside the array; the object literal is never built then and the store is not updated.
\<close>

definition undo :: "clock \<Rightarrow> EditorState \<Rightarrow> js_error + EditorState" where
  "undo clk s =
     (case currentSession s of
        None \<Rightarrow> Inr s
      | Some cs \<Rightarrow>
          if historyIndex cs \<le> 0 then Inr s
          else
            let newIndex = historyIndex cs - 1 in
            (case at_index (history cs) newIndex of
               None \<Rightarrow> Inl TypeError
             | Some st \<Rightarrow>
                 Inr (s\<lparr> currentSession :=
                           Some (cs\<lparr> currentUri := uri st,
                                     historyIndex := newIndex,
                                     updatedAt := clk 0 \<rparr>) \<rparr>)))"

definition redo :: "clock \<Rightarrow> EditorState \<Rightarrow> js_error + EditorState" where
  "redo clk s =
     (case currentSession s of
        None \<Rightarrow> Inr s
      | Some cs \<Rightarrow>
          if historyIndex cs \<ge> int (length (history cs)) - 1 then Inr s
          else
            let newIndex = historyIndex cs + 1 in
            (case at_index (history cs) newIndex of
               None \<Rightarrow> Inl TypeError
             | Some st \<Rightarrow>
                 Inr (s\<lparr> currentSession :=
                           Some (cs\<lparr> currentUri := uri st,
                                     historyIndex := newIndex,
                                     updatedAt := clk 0 \<rparr>) \<rparr>)))"

definition canUndo :: "EditorState \<Rightarrow> bool" where
  "canUndo s = (case currentSession s of None \<Rightarrow> False | Some cs \<Rightarrow> historyIndex cs > 0)"

definition canRedo :: "EditorState \<Rightarrow> bool" where
  "canRedo s =
     (case currentSession s of
        None \<Rightarrow> False
      | Some cs \<Rightarrow> historyIndex cs < int (length (history cs)) - 1)"

definition setTool :: "AITool option \<Rightarrow> EditorState \<Rightarrow> EditorState" where
  "setTool t s = s\<lparr> selectedTool := t \<rparr>"

definition setSelection :: "Selection option \<Rightarrow> EditorState \<Rightarrow> EditorState" where
  "setSelection sel s = s\<lparr> selection := sel \<rparr>"

definition setProcessing :: "bool \<Rightarrow> string option \<Rightarrow> EditorState \<Rightarrow> EditorState" where
  "setProcessing processing message s =
     s\<lparr> isProcessing := processing,
        processingMessage := (case message of None \<Rightarrow> [] | Some m \<Rightarrow> m) \<rparr>"

definition toggleCompare :: "EditorState \<Rightarrow> EditorState" where
  "toggleCompare s = s\<lparr> showCompare := \<not> showCompare s \<rparr>"

definition toggleHistory :: "EditorState \<Rightarrow> EditorState" where
  "toggleHistory s = s\<lparr> showHistory := \<not> showHistory s \<rparr>"

definition addRecentEdit :: "EditSession \<Rightarrow> EditorState \<Rightarrow> EditorState" where
  "addRecentEdit session s = s\<lparr> recentEdits := take 20 (session # recentEdits s) \<rparr>"

definition removeRecentEdit :: "string \<Rightarrow> EditorState \<Rightarrow> EditorState" where
  "removeRecentEdit i s =
     s\<lparr> recentEdits := filter (\<lambda>e. session_id e \<noteq> i) (recentEdits s) \<rparr>"

text \<open>
  A call of one action of the store, with the clock readings of that call. A sequence of
  calls runs from left to right; an exception ends the run.
\<close>

datatype editor_call =
    StartSession clock string
  | EndSession
  | ApplyEdit clock string AITool
  | Undo clock
  | Redo clock
  | SetTool "AITool option"
  | SetSelection "Selection option"
  | SetProcessing bool "string option"
  | ToggleCompare
  | ToggleHistory
  | AddRecentEdit EditSession
  | RemoveRecentEdit string

fun editor_step :: "editor_call \<Rightarrow> EditorState \<Rightarrow> js_error + EditorState" where
  "editor_step (StartSession clk u) s = Inr (startSession clk u s)"
| "editor_step EndSession s = Inr (endSession s)"
| "editor_step (ApplyEdit clk u t) s = Inr (applyEdit clk u t s)"
| "editor_step (Undo clk) s = undo clk s"
| "editor_step (Redo clk) s = redo clk s"
| "editor_step (SetTool t) s = Inr (setTool t s)"
| "editor_step (SetSelection sel) s = Inr (setSelection sel s)"
| "editor_step (SetProcessing p m) s = Inr (setProcessing p m s)"
| "editor_step ToggleCompare s = Inr (toggleCompare s)"
| "editor_step ToggleHistory s = Inr (toggleHistory s)"
| "editor_step (AddRecentEdit e) s = Inr (addRecentEdit e s)"
| "editor_step (RemoveRecentEdit i) s = Inr (removeRecentEdit i s)"

fun editor_run :: "editor_call list \<Rightarrow> EditorState \<Rightarrow> js_error + EditorState" where
  "editor_run [] s = Inr s"
| "editor_run (c # cs) s =
     (case editor_step c s of Inl e \<Rightarrow> Inl e | Inr s' \<Rightarrow> editor_run cs s')"

text \<open>The two properties of a session that the history actions maintain.\<close>

definition cursor_in_bounds :: "EditSession \<Rightarrow> bool" where
  "cursor_in_bounds cs \<longleftrightarrow> 0 \<le> historyIndex cs \<and> historyIndex cs < int (length (history cs))"

definition current_at_cursor :: "EditSession \<Rightarrow> bool" where
  "current_at_cursor cs \<longleftrightarrow>
     (case at_index (history cs) (historyIndex cs) of
        None \<Rightarrow> False
      | Some st \<Rightarrow> currentUri cs = uri st)"

definition session_ok :: "EditorState \<Rightarrow> bool" where
  "session_ok s \<longleftrightarrow>
     (case currentSession s of
        None \<Rightarrow> True
      | Some cs \<Rightarrow> cursor_in_bounds cs \<and> current_at_cursor cs)"

definition bounds_ok :: "EditorState \<Rightarrow> bool" where
  "bounds_ok s \<longleftrightarrow>
     (case currentSession s of None \<Rightarrow> True | Some cs \<Rightarrow> cursor_in_bounds cs)"

text \<open>Clocks and the calls of the worked scenario of the specification.\<close>

definition clock_from :: "int \<Rightarrow> clock" where
  "clock_from t = (\<lambda>i. t + int i)"

definition scenario_calls :: "editor_call list" where
  "scenario_calls =
     [StartSession (clock_from 1000) ''orig.jpg'',
      ApplyEdit (clock_from 2000) ''e1.jpg'' AutoEnhance,
      Undo (clock_from 3000),
      ApplyEdit (clock_from 4000) ''e2.jpg'' SmartCrop]"


section \<open>Image cache (image-cache.ts)\<close>

subsection \<open>Programs with exceptions over a state\<close>

text \<open>
  A method of the cache either returns a value or throws, and in both cases leaves a
  state behind. \<open>andThen\<close> is sequencing (an exception skips the rest), \<open>tryCatch\<close> is
  \<^verbatim>\<open>try { ... } catch (error) { ... }\<close>. The methods are asynchronous in the source;
  the model runs one call at a time, each \<^verbatim>\<open>await\<close> to its end.
\<close>

datatype 'a outcome = Throw js_error | Return 'a

type_synonym ('a, 's) prog = "'s \<Rightarrow> 'a outcome \<times> 's"

definition ret :: "'a \<Rightarrow> ('a, 's) prog" where
  "ret x s = (Return x, s)"

definition throw :: "js_error \<Rightarrow> ('a, 's) prog" where
  "throw e s = (Throw e, s)"

definition andThen :: "('a, 's) prog \<Rightarrow> ('a \<Rightarrow> ('b, 's) prog) \<Rightarrow> ('b, 's) prog" where
  "andThen m f s = (case m s of (Throw e, s') \<Rightarrow> (Throw e, s') | (Return x, s') \<Rightarrow> f x s')"

definition tryCatch :: "('a, 's) prog \<Rightarrow> (js_error \<Rightarrow> ('a, 's) prog) \<Rightarrow> ('a, 's) prog" where
  "tryCatch m h s = (case m s of (Throw e, s') \<Rightarrow> h e s' | (Return x, s') \<Rightarrow> (Return x, s'))"

definition modify :: "('s \<Rightarrow> 's) \<Rightarrow> (unit, 's) prog" where
  "modify f s = (Return (), f s)"

text \<open>The text of an exception, as a template literal prints it.\<close>

fun error_text :: "js_error \<Rightarrow> string" where
  "error_text TypeError = ''TypeError''"
| "error_text SyntaxError = ''SyntaxError''"
| "error_text (IOError m) = ''Error: '' @ m"
| "error_text (Error m) = ''Error: '' @ m"

subsection \<open>Strings\<close>

text \<open>
  \<^verbatim>\<open>s.split(c)\<close> for a one-character separator: the pieces between the separators,
  never an empty array. \<^verbatim>\<open>pop()\<close> gives the last piece.
\<close>

fun split_on :: "char \<Rightarrow> string \<Rightarrow> string list" where
  "split_on c [] = [[]]"
| "split_on c (x # xs) =
     (if x = c then [] # split_on c xs
      else (case split_on c xs of [] \<Rightarrow> [[x]] | w # ws \<Rightarrow> (x # w) # ws))"

definition pop :: "'a list \<Rightarrow> 'a option" where
  "pop xs = (if xs = [] then None else Some (last xs))"

subsection \<open>Data\<close>

record CacheEntry =
  entry_uri :: string
  entry_timestamp :: int
  entry_size :: int

text \<open>
  \<^verbatim>\<open>entries: Record<string, CacheEntry>\<close> is an association list in the order of
  \<^verbatim>\<open>Object.entries\<close> (insertion order; the keys that \<^verbatim>\<open>generateKey\<close> makes contain
  an underscore, so none is an array index). Assignment to an existing key keeps its
  place, assignment to a new key appends (\<open>AList.update\<close>); \<^verbatim>\<open>delete\<close> removes the key
  (\<open>AList.delete\<close>). The keys of a JavaScript object are distinct.
\<close>

record CacheIndex =
  entries :: "(string \<times> CacheEntry) list"
  totalSize :: int

definition empty_index :: CacheIndex where
  "empty_index = \<lparr> entries = [], totalSize = 0 \<rparr>"

definition MAX_CACHE_SIZE :: int where
  "MAX_CACHE_SIZE = 100 * 1024 * 1024"

definition MAX_CACHE_AGE :: int where
  "MAX_CACHE_AGE = 7 * 24 * 60 * 60 * 1000"

text \<open>
  The text of a file, as far as \<^verbatim>\<open>JSON.parse\<close> is concerned. The index file is
  written by \<open>saveIndex\<close> alone, and no other component writes into the cache
  directory, so its text is either the JSON that \<^verbatim>\<open>JSON.stringify\<close> made of an
  index, which \<^verbatim>\<open>JSON.parse\<close> reads back as that index, or a damaged text
  (truncated, overwritten with garbage) that \<^verbatim>\<open>JSON.parse\<close> rejects with a
  SyntaxError. A text that parses to a value which is not an index (\<^verbatim>\<open>[]\<close>, an
  object without \<^verbatim>\<open>totalSize\<close>) is not a value of this type: the source would
  install it as \<^verbatim>\<open>this.index\<close>, which the record \<open>CacheIndex\<close> cannot hold.
\<close>

datatype ftext = IndexJson CacheIndex | Unparseable

definition JSON_stringify :: "CacheIndex \<Rightarrow> ftext" where
  "JSON_stringify i = IndexJson i"

fun JSON_parse :: "ftext \<Rightarrow> CacheIndex outcome" where
  "JSON_parse (IndexJson i) = Return i"
| "JSON_parse Unparseable = Throw SyntaxError"

subsection \<open>The file system and the clock\<close>

text \<open>
  The library \<^verbatim>\<open>expo-file-system\<close> and \<^verbatim>\<open>Date.now\<close> are the environment of the cache.
  They are a parameter of the model: a record of operations on a state \<open>'w\<close> of the
  outside world, each of which returns or throws and leaves a world behind. Nothing is
  assumed about them. The options the source passes (\<^verbatim>\<open>intermediates: true\<close> to
  \<open>makeDirectoryAsync\<close>, \<^verbatim>\<open>idempotent: true\<close> to \<open>deleteAsync\<close>) are the same at each
  call and belong to the operation.
\<close>

record FileInfo =
  info_exists :: bool
  info_size :: "int option"

record 'w fs_api =
  cacheDirectory :: "string option"
  documentDirectory :: "string option"
  makeDirectoryAsync :: "string \<Rightarrow> 'w \<Rightarrow> unit outcome \<times> 'w"
  getInfoAsync :: "string \<Rightarrow> 'w \<Rightarrow> FileInfo outcome \<times> 'w"
  readAsStringAsync :: "string \<Rightarrow> 'w \<Rightarrow> ftext outcome \<times> 'w"
  writeAsStringAsync :: "string \<Rightarrow> ftext \<Rightarrow> 'w \<Rightarrow> unit outcome \<times> 'w"
  copyAsync :: "string \<Rightarrow> string \<Rightarrow> 'w \<Rightarrow> unit outcome \<times> 'w"
  deleteAsync :: "string \<Rightarrow> 'w \<Rightarrow> unit outcome \<times> 'w"
  readDirectoryAsync :: "string \<Rightarrow> 'w \<Rightarrow> string list outcome \<times> 'w"
  date_now :: "'w \<Rightarrow> int \<times> 'w"

text \<open>The state of the singleton \<^verbatim>\<open>imageCache\<close>, together with the world it runs in.\<close>

record 'w ImageCache =
  index :: CacheIndex
  initialized :: bool
  world :: 'w

definition new_ImageCache :: "'w \<Rightarrow> 'w ImageCache" where
  "new_ImageCache w = \<lparr> index = empty_index, initialized = False, world = w \<rparr>"

definition io :: "('w \<Rightarrow> 'a outcome \<times> 'w) \<Rightarrow> ('a, 'w ImageCache) prog" where
  "io f s = (case f (world s) of (r, w) \<Rightarrow> (r, s\<lparr> world := w \<rparr>))"

definition now :: "'w fs_api \<Rightarrow> (int, 'w ImageCache) prog" where
  "now api s = (case date_now api (world s) of (t, w) \<Rightarrow> (Return t, s\<lparr> world := w \<rparr>))"

definition CACHE_DIR :: "'w fs_api \<Rightarrow> string" where
  "CACHE_DIR api = (case cacheDirectory api of None \<Rightarrow> [] | Some d \<Rightarrow> d) @ ''aidit/''"

definition EDITS_DIR :: "'w fs_api \<Rightarrow> string" where
  "EDITS_DIR api = (case documentDirectory api of None \<Rightarrow> [] | Some d \<Rightarrow> d) @ ''aidit/edits/''"

definition indexPath :: "'w fs_api \<Rightarrow> string" where
  "indexPath api = CACHE_DIR api @ ''index.json''"

subsection \<open>The methods of ImageCache\<close>

definition saveIndex :: "'w fs_api \<Rightarrow> (unit, 'w ImageCache) prog" where
  "saveIndex api s = io (writeAsStringAsync api (indexPath api) (JSON_stringify (index s))) s"

text \<open>Removing one entry, as the loops of \<open>cleanup\<close> and \<open>evictIfNeeded\<close> do.\<close>

definition drop_entry :: "string \<Rightarrow> CacheEntry \<Rightarrow> 'w ImageCache \<Rightarrow> 'w ImageCache" where
  "drop_entry key entry s =
     s\<lparr> index := \<lparr> entries = AList.delete key (entries (index s)),
                   totalSize = totalSize (index s) - entry_size entry \<rparr> \<rparr>"

fun cleanup_loop ::
  "'w fs_api \<Rightarrow> int \<Rightarrow> (string \<times> CacheEntry) list \<Rightarrow> (unit, 'w ImageCache) prog" where
  "cleanup_loop api nw [] = ret ()"
| "cleanup_loop api nw ((key, entry) # rest) =
     (if nw - entry_timestamp entry > MAX_CACHE_AGE
      then andThen (io (deleteAsync api (entry_uri entry))) (\<lambda>_.
           andThen (modify (drop_entry key entry)) (\<lambda>_.
           cleanup_loop api nw rest))
      else cleanup_loop api nw rest)"

definition cleanup :: "'w fs_api \<Rightarrow> (unit, 'w ImageCache) prog" where
  "cleanup api =
     andThen (now api) (\<lambda>nw s.
       andThen (cleanup_loop api nw (entries (index s))) (\<lambda>_. saveIndex api) s)"

definition initialize :: "'w fs_api \<Rightarrow> (unit, 'w ImageCache) prog" where
  "initialize api s =
     (if initialized s then (Return (), s)
      else
        tryCatch
          (andThen (io (makeDirectoryAsync api (CACHE_DIR api))) (\<lambda>_.
           andThen (io (makeDirectoryAsync api (EDITS_DIR api))) (\<lambda>_.
           andThen (io (getInfoAsync api (indexPath api))) (\<lambda>indexInfo.
           andThen
             (if info_exists indexInfo
              then andThen (io (readAsStringAsync api (indexPath api))) (\<lambda>indexData s1.
                     (case JSON_parse indexData of
                        Throw e \<Rightarrow> (Throw e, s1)
                      | Return i \<Rightarrow> (Return (), s1\<lparr> index := i \<rparr>)))
              else ret ()) (\<lambda>_.
           andThen (modify (\<lambda>s1. s1\<lparr> initialized := True \<rparr>)) (\<lambda>_.
           cleanup api))))))
          (\<lambda>error. modify (\<lambda>s1. s1\<lparr> index := empty_index, initialized := True \<rparr>))
          s)"

definition generateKey :: "'w fs_api \<Rightarrow> string \<Rightarrow> string option \<Rightarrow> (string, 'w ImageCache) prog" where
  "generateKey api sourceUri operation =
     (let hash = (case pop (split_on CHR ''/'' sourceUri) of
                    None \<Rightarrow> ''img''
                  | Some name \<Rightarrow>
                      (case at_index (split_on CHR ''.'' name) 0 of
                         None \<Rightarrow> ''img''
                       | Some h \<Rightarrow> if h = [] then ''img'' else h));
          suffix = (case operation of
                      None \<Rightarrow> []
                    | Some opn \<Rightarrow> if opn = [] then [] else ''_'' @ opn)
      in andThen (now api) (\<lambda>t. ret (hash @ suffix @ ''_'' @ string_of_int t)))"

definition file_extension :: "string \<Rightarrow> string" where
  "file_extension sourceUri =
     (case pop (split_on CHR ''.'' sourceUri) of
        None \<Rightarrow> ''jpg''
      | Some e \<Rightarrow> if e = [] then ''jpg'' else e)"

fun evict_loop :: "'w fs_api \<Rightarrow> (string \<times> CacheEntry) list \<Rightarrow> (unit, 'w ImageCache) prog" where
  "evict_loop api [] = ret ()"
| "evict_loop api ((key, entry) # rest) =
     (\<lambda>s. if real_of_int (totalSize (index s)) \<le> real_of_int MAX_CACHE_SIZE * 0.8
          then (Return (), s)
          else andThen (io (deleteAsync api (entry_uri entry))) (\<lambda>_.
               andThen (modify (drop_entry key entry)) (\<lambda>_.
               evict_loop api rest)) s)"

definition evictIfNeeded :: "'w fs_api \<Rightarrow> (unit, 'w ImageCache) prog" where
  "evictIfNeeded api s =
     (if totalSize (index s) \<le> MAX_CACHE_SIZE then (Return (), s)
      else
        andThen (evict_loop api (sort_key (\<lambda>(k, e). entry_timestamp e) (entries (index s))))
          (\<lambda>_. saveIndex api) s)"

definition cacheImage :: "'w fs_api \<Rightarrow> string \<Rightarrow> string option \<Rightarrow> (string, 'w ImageCache) prog" where
  "cacheImage api sourceUri operation =
     andThen (initialize api) (\<lambda>_.
     andThen (generateKey api sourceUri operation) (\<lambda>key.
       let extension = file_extension sourceUri;
           destUri = CACHE_DIR api @ key @ ''.'' @ extension
       in tryCatch
            (andThen (io (copyAsync api sourceUri destUri)) (\<lambda>_.
             andThen (io (getInfoAsync api destUri)) (\<lambda>info.
               let sz = (if info_exists info
                         then (case info_size info of Some n \<Rightarrow> n | None \<Rightarrow> 0)
                         else 0)
               in andThen (now api) (\<lambda>t.
                  andThen (modify (\<lambda>s.
                     s\<lparr> index :=
                          \<lparr> entries = AList.update key
                                \<lparr> entry_uri = destUri, entry_timestamp = t, entry_size = sz \<rparr>
                                (entries (index s)),
                            totalSize = totalSize (index s) + sz \<rparr> \<rparr>)) (\<lambda>_.
                  andThen (saveIndex api) (\<lambda>_.
                  andThen (evictIfNeeded api) (\<lambda>_.
                  ret destUri)))))))
            (\<lambda>error. throw (Error (''Failed to cache image: '' @ error_text error)))))"

definition saveEdit :: "'w fs_api \<Rightarrow> string \<Rightarrow> string option \<Rightarrow> (string, 'w ImageCache) prog" where
  "saveEdit api sourceUri name =
     andThen (initialize api) (\<lambda>_.
     andThen (now api) (\<lambda>t.
       let editName = (case name of
                         None \<Rightarrow> ''edit_'' @ string_of_int t
                       | Some n \<Rightarrow> if n = [] then ''edit_'' @ string_of_int t else n);
           extension = file_extension sourceUri;
           destUri = EDITS_DIR api @ editName @ ''.'' @ extension
       in tryCatch
            (andThen (io (copyAsync api sourceUri destUri)) (\<lambda>_. ret destUri))
            (\<lambda>error. throw (Error (''Failed to save edit: '' @ error_text error)))))"

text \<open>
  \<^verbatim>\<open>this.index.entries[key]\<close> is the entry stored under \<open>key\<close>. (For a key without
  an entry that names a property of \<^verbatim>\<open>Object.prototype\<close>, such as
  \<^verbatim>\<open>toString\<close>, JavaScript finds the inherited property instead of
  \<^verbatim>\<open>undefined\<close>; such keys are outside the model, which treats them like any
  other key without an entry.)
\<close>

definition getCached :: "'w fs_api \<Rightarrow> string \<Rightarrow> (string option, 'w ImageCache) prog" where
  "getCached api key =
     andThen (initialize api) (\<lambda>_ s.
       (case map_of (entries (index s)) key of
          None \<Rightarrow> (Return None, s)
        | Some entry \<Rightarrow>
            andThen (io (getInfoAsync api (entry_uri entry))) (\<lambda>info.
              if \<not> info_exists info
              then andThen (modify (\<lambda>s1.
                       s1\<lparr> index := \<lparr> entries = AList.delete key (entries (index s1)),
                                      totalSize = totalSize (index s1) - entry_size entry \<rparr> \<rparr>)) (\<lambda>_.
                   andThen (saveIndex api) (\<lambda>_.
                   ret None))
              else andThen (now api) (\<lambda>t.
                   andThen (modify (\<lambda>s1.
                       s1\<lparr> index := (index s1)\<lparr> entries :=
                              AList.update key (entry\<lparr> entry_timestamp := t \<rparr>)
                                (entries (index s1)) \<rparr> \<rparr>)) (\<lambda>_.
                   andThen (saveIndex api) (\<lambda>_.
                   ret (Some (entry_uri entry)))))) s))"

definition getSavedEdits :: "'w fs_api \<Rightarrow> (string list, 'w ImageCache) prog" where
  "getSavedEdits api =
     andThen (initialize api) (\<lambda>_.
       tryCatch
         (andThen (io (readDirectoryAsync api (EDITS_DIR api))) (\<lambda>files.
            ret (map (\<lambda>f. EDITS_DIR api @ f) files)))
         (\<lambda>_. ret []))"

text \<open>
  \<^verbatim>\<open>Object.keys(entries).find((k) => entries[k].uri === uri)\<close>, followed by
  \<^verbatim>\<open>if (key)\<close>, which the empty string does not pass.
\<close>

definition find_key :: "CacheIndex \<Rightarrow> string \<Rightarrow> string option" where
  "find_key idx u =
     List.find (\<lambda>k. case map_of (entries idx) k of
                      None \<Rightarrow> False
                    | Some e \<Rightarrow> entry_uri e = u)
       (map fst (entries idx))"

definition delete :: "'w fs_api \<Rightarrow> string \<Rightarrow> (unit, 'w ImageCache) prog" where
  "delete api u =
     tryCatch
       (andThen (io (deleteAsync api u)) (\<lambda>_ s.
          (case find_key (index s) u of
             None \<Rightarrow> (Return (), s)
           | Some key \<Rightarrow>
               if key = [] then (Return (), s)
               else
                 (case map_of (entries (index s)) key of
                    None \<Rightarrow> (Throw TypeError, s)
                  | Some e \<Rightarrow>
                      andThen (modify (\<lambda>s1.
                          s1\<lparr> index := \<lparr> entries = AList.delete key (entries (index s1)),
                                         totalSize = totalSize (index s1) - entry_size e \<rparr> \<rparr>)) (\<lambda>_.
                      saveIndex api) s))))
       (\<lambda>error. ret ())"

definition clearCache :: "'w fs_api \<Rightarrow> (unit, 'w ImageCache) prog" where
  "clearCache api =
     tryCatch
       (andThen (io (deleteAsync api (CACHE_DIR api))) (\<lambda>_.
        andThen (io (makeDirectoryAsync api (CACHE_DIR api))) (\<lambda>_.
        andThen (modify (\<lambda>s. s\<lparr> index := empty_index \<rparr>)) (\<lambda>_.
        saveIndex api))))
       (\<lambda>error. ret ())"

record CacheStats =
  entryCount :: nat
  stats_totalSize :: int

definition getStats :: "'w ImageCache \<Rightarrow> CacheStats" where
  "getStats s =
     \<lparr> entryCount = length (entries (index s)), stats_totalSize = totalSize (index s) \<rparr>"

subsection \<open>The invariant of the index\<close>

text \<open>
  The invariant of the data model: the keys of \<open>entries\<close> are distinct and
  \<open>totalSize\<close> is the sum of the sizes of the entries.
\<close>

definition index_ok :: "CacheIndex \<Rightarrow> bool" where
  "index_ok idx \<longleftrightarrow>
     distinct (map fst (entries idx)) \<and>
     totalSize idx = sum_list (map (\<lambda>(k, e). entry_size e) (entries idx))"

text \<open>
  \<open>valid P m Q E\<close>: from a state that satisfies \<open>P\<close>, the program \<open>m\<close> leaves a state
  that satisfies \<open>Q\<close> when it returns and \<open>E\<close> when it throws.
\<close>

definition valid ::
  "('s \<Rightarrow> bool) \<Rightarrow> ('a, 's) prog \<Rightarrow> ('a \<Rightarrow> 's \<Rightarrow> bool) \<Rightarrow> ('s \<Rightarrow> bool) \<Rightarrow> bool" where
  "valid P m Q E \<longleftrightarrow>
     (\<forall>s. P s \<longrightarrow> (case m s of (Throw e, s') \<Rightarrow> E s' | (Return x, s') \<Rightarrow> Q x s'))"

text \<open>
  Inside the loops of \<open>cleanup\<close> and \<open>evictIfNeeded\<close>, which run over a snapshot of the
  entries: the entries still to be visited are entries of the index.
\<close>

definition pending :: "(string \<times> CacheEntry) list \<Rightarrow> CacheIndex \<Rightarrow> bool" where
  "pending xs idx \<longleftrightarrow>
     index_ok idx \<and> set xs \<subseteq> set (entries idx) \<and> distinct (map fst xs)"

text \<open>
  Every index that the environment can hand to \<open>initialize\<close> as the text of the index
  file satisfies the invariant.
\<close>

definition persisted_ok :: "'w fs_api \<Rightarrow> bool" where
  "persisted_ok api \<longleftrightarrow>
     (\<forall>w doc w' i. readAsStringAsync api (indexPath api) w = (Return doc, w') \<longrightarrow>
        JSON_parse doc = Return i \<longrightarrow> index_ok i)"

subsection \<open>What an eviction leaves\<close>

text \<open>
  The cache after the entries \<open>victims\<close> are evicted, in the words of the
  specification: each victim's file is deleted, in order, its entry is removed from the
  index and its size is taken off the running sum. \<open>evictIfNeeded\<close> is compared
  with it below.
\<close>

definition evicted ::
  "'w fs_api \<Rightarrow> (string \<times> CacheEntry) list \<Rightarrow> 'w ImageCache \<Rightarrow> 'w ImageCache" where
  "evicted api victims s =
     s\<lparr> index := \<lparr> entries = filter (\<lambda>(k, e). k \<notin> fst ` set victims) (entries (index s)),
                   totalSize = totalSize (index s)
                               - sum_list (map (\<lambda>(k, e). entry_size e) victims) \<rparr>,
        world := fold (\<lambda>(k, e) w. snd (deleteAsync api (entry_uri e) w)) victims (world s) \<rparr>"

text \<open>
  The entries that \<open>cleanup\<close> has to remove at time \<open>nw\<close>, in the words of the
  specification: those whose age exceeds the maximum age.
\<close>

definition expired :: "int \<Rightarrow> (string \<times> CacheEntry) list \<Rightarrow> (string \<times> CacheEntry) list" where
  "expired nw es = filter (\<lambda>(k, e). MAX_CACHE_AGE < nw - entry_timestamp e) es"

subsection \<open>A reference environment for worked scenarios\<close>

text \<open>
  An in-memory file system: files by path, holding either image bytes of a given size or
  a text; directories are implicit. Copying and reading fail when the source is
  missing; deleting a path removes the file, or every file below a directory path, and
  is not an error when nothing is there. The clock returns the scripted readings in turn.
\<close>

datatype fdata = Blob int | Doc ftext

fun data_size :: "fdata \<Rightarrow> int" where
  "data_size (Blob n) = n"
| "data_size (Doc t) = 0"

record mem_world =
  files :: "(string \<times> fdata) list"
  clock :: "int list"

definition under :: "string \<Rightarrow> string \<Rightarrow> bool" where
  "under p q \<longleftrightarrow> q = p \<or> (p \<noteq> [] \<and> last p = CHR ''/'' \<and> take (length p) q = p)"

definition mem_fs :: "mem_world fs_api" where
  "mem_fs =
     \<lparr> cacheDirectory = Some ''cache/'',
       documentDirectory = Some ''docs/'',
       makeDirectoryAsync = (\<lambda>p w. (Return (), w)),
       getInfoAsync = (\<lambda>p w.
         (case map_of (files w) p of
            None \<Rightarrow> (Return \<lparr> info_exists = False, info_size = None \<rparr>, w)
          | Some d \<Rightarrow> (Return \<lparr> info_exists = True, info_size = Some (data_size d) \<rparr>, w))),
       readAsStringAsync = (\<lambda>p w.
         (case map_of (files w) p of
            Some (Doc t) \<Rightarrow> (Return t, w)
          | _ \<Rightarrow> (Throw (IOError ''cannot read''), w))),
       writeAsStringAsync = (\<lambda>p t w. (Return (), w\<lparr> files := AList.update p (Doc t) (files w) \<rparr>)),
       copyAsync = (\<lambda>src dst w.
         (case map_of (files w) src of
            None \<Rightarrow> (Throw (IOError ''no such file''), w)
          | Some d \<Rightarrow> (Return (), w\<lparr> files := AList.update dst d (files w) \<rparr>))),
       deleteAsync = (\<lambda>p w. (Return (), w\<lparr> files := filter (\<lambda>(q, d). \<not> under p q) (files w) \<rparr>)),
       readDirectoryAsync = (\<lambda>p w.
         (Return (map (drop (length p)) (filter (\<lambda>q. take (length p) q = p \<and> q \<noteq> p)
                    (map fst (files w)))), w)),
       date_now = (\<lambda>w. (case clock w of [] \<Rightarrow> (0, w) | t # ts \<Rightarrow> (t, w\<lparr> clock := ts \<rparr>))) \<rparr>"

text \<open>Worlds of the worked scenarios.\<close>

definition corrupt_world :: mem_world where
  "corrupt_world =
     \<lparr> files = [(''cache/aidit/index.json'', Doc Unparseable)],
       clock = [1000] \<rparr>"

definition persisted_index :: CacheIndex where
  "persisted_index =
     \<lparr> entries = [(''a_1000'',
          \<lparr> entry_uri = ''cache/aidit/a_1000.jpg'', entry_timestamp = 1000, entry_size = 10 \<rparr>)],
       totalSize = 10 \<rparr>"

definition persisted_world :: mem_world where
  "persisted_world =
     \<lparr> files = [(''cache/aidit/index.json'', Doc (IndexJson persisted_index)),
                (''cache/aidit/a_1000.jpg'', Blob 10)],
       clock = [2000, 2001, 2002] \<rparr>"

definition stale_world :: mem_world where
  "stale_world = \<lparr> files = [], clock = [5000] \<rparr>"

definition live_world :: mem_world where
  "live_world = \<lparr> files = [(''cache/aidit/a_1000.jpg'', Blob 10)], clock = [5000] \<rparr>"

text \<open>Three cached images of 40 MiB each, the second one the oldest.\<close>

definition full_index :: CacheIndex where
  "full_index =
     \<lparr> entries =
         [(''b_2000'', \<lparr> entry_uri = ''cache/aidit/b_2000.jpg'', entry_timestamp = 2000,
                         entry_size = 41943040 \<rparr>),
          (''a_1000'', \<lparr> entry_uri = ''cache/aidit/a_1000.jpg'', entry_timestamp = 1000,
                         entry_size = 41943040 \<rparr>),
          (''c_3000'', \<lparr> entry_uri = ''cache/aidit/c_3000.jpg'', entry_timestamp = 3000,
                         entry_size = 41943040 \<rparr>)],
       totalSize = 125829120 \<rparr>"

definition full_world :: mem_world where
  "full_world =
     \<lparr> files = [(''cache/aidit/b_2000.jpg'', Blob 41943040),
                (''cache/aidit/a_1000.jpg'', Blob 41943040),
                (''cache/aidit/c_3000.jpg'', Blob 41943040)],
       clock = [4000] \<rparr>"

text \<open>
  A source image of 10 bytes and a clock on which the two calls of \<open>cacheImage\<close> below
  generate their keys within the same millisecond (the readings are those of cleanup,
  of the first key, of the first timestamp, of the second key and of the second
  timestamp).
\<close>

definition collision_world :: mem_world where
  "collision_world =
     \<lparr> files = [(''photos/a.jpg'', Blob 10)], clock = [999, 1000, 1000, 1000, 1001] \<rparr>"

definition after_first_cacheImage :: "mem_world ImageCache" where
  "after_first_cacheImage =
     snd (cacheImage mem_fs ''photos/a.jpg'' (Some ''enhance'') (new_ImageCache collision_world))"

definition after_second_cacheImage :: "mem_world ImageCache" where
  "after_second_cacheImage =
     snd (cacheImage mem_fs ''photos/a.jpg'' (Some ''enhance'') after_first_cacheImage)"

text \<open>
  A persisted index with an entry last touched more than seven days before the clock
  reading 700000000 and an entry touched one second before it, both files present.
\<close>

definition aged_index :: CacheIndex where
  "aged_index =
     \<lparr> entries =
         [(''old_1000'', \<lparr> entry_uri = ''cache/aidit/old_1000.jpg'', entry_timestamp = 1000,
                           entry_size = 30 \<rparr>),
          (''new_699999000'', \<lparr> entry_uri = ''cache/aidit/new_699999000.jpg'',
                                entry_timestamp = 699999000, entry_size = 12 \<rparr>)],
       totalSize = 42 \<rparr>"

definition aged_world :: mem_world where
  "aged_world =
     \<lparr> files = [(''cache/aidit/index.json'', Doc (IndexJson aged_index)),
                (''cache/aidit/old_1000.jpg'', Blob 30),
                (''cache/aidit/new_699999000.jpg'', Blob 12)],
       clock = [700000000] \<rparr>"


section \<open>Properties of the session history store\<close>

lemma session_ok_initial: "session_ok initial_state"
  by (simp add: session_ok_def initial_state_def)

lemma session_ok_startSession: "session_ok (startSession clk u s)"
  by (simp add: session_ok_def startSession_def cursor_in_bounds_def
      current_at_cursor_def at_index_def)

lemma session_ok_endSession: "session_ok (endSession s)"
  by (simp add: session_ok_def endSession_def Let_def split: option.splits)

lemma slice0_in_range:
  "n < length xs \<Longrightarrow> slice0 xs (int n + 1) = take (Suc n) xs"
  by (simp add: slice0_def Let_def min_def nat_add_distrib)

lemma session_ok_applyEdit:
  assumes "session_ok s"
  shows "session_ok (applyEdit clk u t s)"
proof (cases "currentSession s")
  case None
  then show ?thesis using assms by (simp add: applyEdit_def)
next
  case (Some cs)
  with assms have b: "0 \<le> historyIndex cs" "historyIndex cs < int (length (history cs))"
    by (simp_all add: session_ok_def cursor_in_bounds_def)
  define n where "n = nat (historyIndex cs)"
  have n: "historyIndex cs = int n" "n < length (history cs)"
    using b by (simp_all add: n_def)
  have sl: "slice0 (history cs) (historyIndex cs + 1) = take (Suc n) (history cs)"
    using n by (simp add: slice0_in_range)
  have len: "length (take (Suc n) (history cs)) = Suc n"
    using n(2) by simp
  have "cursor_in_bounds (the (currentSession (applyEdit clk u t s)))"
    using Some by (simp add: applyEdit_def Let_def cursor_in_bounds_def)
  moreover have "current_at_cursor (the (currentSession (applyEdit clk u t s)))"
    using Some by (simp add: applyEdit_def Let_def current_at_cursor_def at_index_def)
  ultimately show ?thesis
    using Some by (simp add: session_ok_def applyEdit_def Let_def)
qed

lemma undo_preserves:
  assumes "session_ok s"
  shows "\<exists>s'. undo clk s = Inr s' \<and> session_ok s'"
proof (cases "currentSession s")
  case None
  then show ?thesis using assms by (simp add: undo_def)
next
  case (Some cs)
  with assms have b: "0 \<le> historyIndex cs" "historyIndex cs < int (length (history cs))"
    by (simp_all add: session_ok_def cursor_in_bounds_def)
  show ?thesis
  proof (cases "historyIndex cs \<le> 0")
    case True
    then show ?thesis using Some assms by (simp add: undo_def)
  next
    case False
    then show ?thesis
      using Some b
      by (simp add: undo_def Let_def at_index_def session_ok_def cursor_in_bounds_def
          current_at_cursor_def)
  qed
qed

lemma redo_preserves:
  assumes "session_ok s"
  shows "\<exists>s'. redo clk s = Inr s' \<and> session_ok s'"
proof (cases "currentSession s")
  case None
  then show ?thesis using assms by (simp add: redo_def)
next
  case (Some cs)
  with assms have b: "0 \<le> historyIndex cs" "historyIndex cs < int (length (history cs))"
    by (simp_all add: session_ok_def cursor_in_bounds_def)
  show ?thesis
  proof (cases "historyIndex cs \<ge> int (length (history cs)) - 1")
    case True
    then show ?thesis using Some assms by (simp add: redo_def)
  next
    case False
    then show ?thesis
      using Some b
      by (simp add: redo_def Let_def at_index_def session_ok_def cursor_in_bounds_def
          current_at_cursor_def)
  qed
qed

lemma editor_step_preserves:
  assumes "session_ok s"
  shows "\<exists>s'. editor_step c s = Inr s' \<and> session_ok s'"
proof (cases c)
  case (Undo clk)
  then show ?thesis using undo_preserves [OF assms] by simp
next
  case (Redo clk)
  then show ?thesis using redo_preserves [OF assms] by simp
next
  case (ApplyEdit clk u t)
  then show ?thesis using session_ok_applyEdit [OF assms] by simp
qed (use assms in \<open>simp_all add: session_ok_startSession session_ok_endSession,
      simp_all add: session_ok_def setTool_def setSelection_def setProcessing_def
        toggleCompare_def toggleHistory_def addRecentEdit_def removeRecentEdit_def\<close>)

lemma editor_run_preserves:
  "session_ok s \<Longrightarrow> \<exists>s'. editor_run calls s = Inr s' \<and> session_ok s'"
proof (induction calls arbitrary: s)
  case Nil
  then show ?case by simp
next
  case (Cons c calls)
  from editor_step_preserves [OF Cons.prems]
  obtain s1 where s1: "editor_step c s = Inr s1" "session_ok s1" by blast
  from Cons.IH [OF s1(2)] show ?case using s1(1) by simp
qed



lemma bounds_ok_startSession: "bounds_ok (startSession clk u s)"
  by (simp add: bounds_ok_def startSession_def cursor_in_bounds_def)

lemma bounds_ok_endSession: "bounds_ok (endSession s)"
  by (simp add: bounds_ok_def endSession_def Let_def split: option.splits)

lemma bounds_ok_applyEdit: "bounds_ok (applyEdit clk u t s)"
  by (simp add: bounds_ok_def applyEdit_def Let_def cursor_in_bounds_def
      split: option.splits)

lemma bounds_ok_undo:
  assumes "bounds_ok s"
  shows "\<exists>s'. undo clk s = Inr s' \<and> bounds_ok s'"
  using assms
  by (auto simp add: bounds_ok_def undo_def Let_def at_index_def cursor_in_bounds_def
      split: option.splits)

lemma bounds_ok_redo:
  assumes "bounds_ok s"
  shows "\<exists>s'. redo clk s = Inr s' \<and> bounds_ok s'"
  using assms
  by (auto simp add: bounds_ok_def redo_def Let_def at_index_def cursor_in_bounds_def
      split: option.splits)

lemma bounds_ok_step:
  assumes "bounds_ok s"
  shows "\<exists>s'. editor_step c s = Inr s' \<and> bounds_ok s'"
proof (cases c)
  case (Undo clk)
  then show ?thesis using bounds_ok_undo [OF assms] by simp
next
  case (Redo clk)
  then show ?thesis using bounds_ok_redo [OF assms] by simp
qed (use assms in \<open>simp_all add: bounds_ok_startSession bounds_ok_endSession
      bounds_ok_applyEdit,
      simp_all add: bounds_ok_def setTool_def setSelection_def setProcessing_def
        toggleCompare_def toggleHistory_def addRecentEdit_def removeRecentEdit_def\<close>)

lemma bounds_ok_run:
  "bounds_ok s \<Longrightarrow> \<exists>s'. editor_run calls s = Inr s' \<and> bounds_ok s'"
proof (induction calls arbitrary: s)
  case Nil
  then show ?case by simp
next
  case (Cons c calls)
  from bounds_ok_step [OF Cons.prems]
  obtain s1 where s1: "editor_step c s = Inr s1" "bounds_ok s1" by blast
  from Cons.IH [OF s1(2)] show ?case using s1(1) by simp
qed

lemma scenario_prefix3:
  "editor_run (take 3 scenario_calls) initial_state =
     Inr \<lparr> currentSession = Some
             \<lparr> session_id = ''session_1000'', originalUri = ''orig.jpg'',
               currentUri = ''orig.jpg'',
               history = [\<lparr> uri = ''orig.jpg'', timestamp = 1001, tool = None \<rparr>,
                          \<lparr> uri = ''e1.jpg'', timestamp = 2000, tool = Some AutoEnhance \<rparr>],
               historyIndex = 0, createdAt = 1002, updatedAt = 3000 \<rparr>,
           isProcessing = False, processingMessage = [], selectedTool = None,
           selection = None, showCompare = False, showHistory = False,
           recentEdits = [] \<rparr>"
  by (simp add: scenario_calls_def initial_state_def startSession_def applyEdit_def
      undo_def clock_from_def Let_def slice0_def at_index_def string_of_int_def
      string_of_nat.simps digit_char_def)

text \<open>
  C10. Without an active session, applyEdit, undo and redo return the store as it is,
  without an exception, and canUndo and canRedo are both false.
\<close>

theorem no_session_actions_are_noops:
  assumes "currentSession s = None"
  shows "applyEdit clk newUri t s = s \<and> undo clk s = Inr s \<and> redo clk s = Inr s
         \<and> \<not> canUndo s \<and> \<not> canRedo s"
  using assms by (simp add: applyEdit_def undo_def redo_def canUndo_def canRedo_def)

theorem no_session_actions_are_noops_witness:
  "currentSession initial_state = None
   \<and> applyEdit (clock_from 1000) ''e1.jpg'' AutoEnhance initial_state = initial_state
   \<and> undo (clock_from 1000) initial_state = Inr initial_state
   \<and> redo (clock_from 1000) initial_state = Inr initial_state
   \<and> \<not> canUndo initial_state \<and> \<not> canRedo initial_state"
proof -
  have h: "currentSession initial_state = None"
    by (simp add: initial_state_def)
  from no_session_actions_are_noops [OF h, of "clock_from 1000" "''e1.jpg''" AutoEnhance] h
  show ?thesis by simp
qed

text \<open>
  C2. From a store whose session, if any, has its cursor inside the history (the initial
  store has no session), every sequence of store actions runs without an exception, and
  after each action of the sequence the cursor of the active session satisfies
  0 <= historyIndex < length(history).
\<close>

theorem cursor_in_bounds_after_each_call:
  assumes "bounds_ok s0"
  shows "\<forall>k \<le> length calls. \<exists>s. editor_run (take k calls) s0 = Inr s \<and>
           (\<forall>cs. currentSession s = Some cs \<longrightarrow>
              0 \<le> historyIndex cs \<and> historyIndex cs < int (length (history cs)))"
proof (intro allI impI)
  fix k
  from bounds_ok_run [OF assms, of "take k calls"]
  obtain s where "editor_run (take k calls) s0 = Inr s" "bounds_ok s" by blast
  then show "\<exists>s. editor_run (take k calls) s0 = Inr s \<and>
           (\<forall>cs. currentSession s = Some cs \<longrightarrow>
              0 \<le> historyIndex cs \<and> historyIndex cs < int (length (history cs)))"
    by (auto simp add: bounds_ok_def cursor_in_bounds_def)
qed

theorem cursor_in_bounds_after_each_call_witness:
  "bounds_ok initial_state \<and> 3 \<le> length scenario_calls \<and>
   (\<exists>s cs. editor_run (take 3 scenario_calls) initial_state = Inr s \<and>
      currentSession s = Some cs \<and> length (history cs) = 2 \<and>
      0 \<le> historyIndex cs \<and> historyIndex cs < int (length (history cs)))"
proof -
  have h: "bounds_ok initial_state"
    by (simp add: bounds_ok_def initial_state_def)
  have l: "3 \<le> length scenario_calls"
    by (simp add: scenario_calls_def)
  from cursor_in_bounds_after_each_call [OF h, of scenario_calls] l
  obtain s where s: "editor_run (take 3 scenario_calls) initial_state = Inr s"
      "\<forall>cs. currentSession s = Some cs \<longrightarrow>
          0 \<le> historyIndex cs \<and> historyIndex cs < int (length (history cs))"
    by blast
  from s(1) obtain cs where cs: "currentSession s = Some cs" "length (history cs) = 2"
    unfolding scenario_prefix3 by auto
  with s h l show ?thesis by blast
qed

text \<open>
  C5. From a store whose session, if any, has currentUri equal to the uri of the history
  entry at the cursor, every sequence of store actions runs without an exception, and
  after each action of the sequence the active session's currentUri is
  history[historyIndex].uri.
\<close>

theorem currentUri_is_history_at_cursor:
  assumes "session_ok s0"
  shows "\<forall>k \<le> length calls. \<exists>s. editor_run (take k calls) s0 = Inr s \<and>
           (\<forall>cs. currentSession s = Some cs \<longrightarrow>
              (\<exists>st. at_index (history cs) (historyIndex cs) = Some st \<and>
                    currentUri cs = uri st))"
proof (intro allI impI)
  fix k
  from editor_run_preserves [OF assms, of "take k calls"]
  obtain s where "editor_run (take k calls) s0 = Inr s" "session_ok s" by blast
  then show "\<exists>s. editor_run (take k calls) s0 = Inr s \<and>
           (\<forall>cs. currentSession s = Some cs \<longrightarrow>
              (\<exists>st. at_index (history cs) (historyIndex cs) = Some st \<and>
                    currentUri cs = uri st))"
    by (auto simp add: session_ok_def current_at_cursor_def split: option.splits)
qed

theorem currentUri_is_history_at_cursor_witness:
  "session_ok initial_state \<and> 3 \<le> length scenario_calls \<and>
   (\<exists>s cs st. editor_run (take 3 scenario_calls) initial_state = Inr s \<and>
      currentSession s = Some cs \<and>
      at_index (history cs) (historyIndex cs) = Some st \<and>
      currentUri cs = uri st \<and> uri st = ''orig.jpg'')"
proof -
  have l: "3 \<le> length scenario_calls"
    by (simp add: scenario_calls_def)
  from currentUri_is_history_at_cursor [OF session_ok_initial, of scenario_calls] l
  obtain s where s: "editor_run (take 3 scenario_calls) initial_state = Inr s"
      "\<forall>cs. currentSession s = Some cs \<longrightarrow>
          (\<exists>st. at_index (history cs) (historyIndex cs) = Some st \<and>
                currentUri cs = uri st)"
    by blast
  from s(1) obtain cs where cs: "currentSession s = Some cs" "currentUri cs = ''orig.jpg''"
    unfolding scenario_prefix3 by auto
  with s(2) obtain st where "at_index (history cs) (historyIndex cs) = Some st"
      "currentUri cs = uri st" by blast
  with s(1) cs session_ok_initial l show ?thesis by auto
qed


text \<open>
  C3. In an active session whose cursor c is a valid index with c < length(history) - 1,
  applyEdit keeps exactly the entries 0..c of the history and appends the new ImageState:
  the history then has c + 2 entries, the cursor is its last index, nothing can be redone,
  and no entry of the discarded redo tail is left in the history (history entries are
  distinct objects in the source, hence the distinctness of the old history and the
  difference from the new entry).
\<close>

theorem applyEdit_truncates_redo_tail:
  assumes "currentSession s = Some cs"
    and "0 \<le> historyIndex cs"
    and "historyIndex cs < int (length (history cs)) - 1"
  shows "\<exists>cs'. currentSession (applyEdit clk newUri t s) = Some cs' \<and>
           history cs' = take (nat (historyIndex cs) + 1) (history cs)
                         @ [\<lparr> uri = newUri, timestamp = clk 0, tool = Some t \<rparr>] \<and>
           int (length (history cs')) = historyIndex cs + 2 \<and>
           historyIndex cs' = int (length (history cs')) - 1 \<and>
           currentUri cs' = newUri \<and>
           \<not> canRedo (applyEdit clk newUri t s) \<and>
           (distinct (history cs) \<longrightarrow>
              (\<forall>x \<in> set (drop (nat (historyIndex cs) + 1) (history cs)).
                 x \<noteq> \<lparr> uri = newUri, timestamp = clk 0, tool = Some t \<rparr>
                 \<longrightarrow> x \<notin> set (history cs')))"
proof -
  define n where "n = nat (historyIndex cs)"
  have n: "historyIndex cs = int n" "Suc n < length (history cs)"
    using assms(2,3) by (simp_all add: n_def)
  have sl: "slice0 (history cs) (int n + 1) = take (Suc n) (history cs)"
    using n(2) by (simp add: slice0_in_range)
  define cs' where "cs' = cs\<lparr> currentUri := newUri,
      history := take (Suc n) (history cs) @ [\<lparr> uri = newUri, timestamp = clk 0, tool = Some t \<rparr>],
      historyIndex := int (length (take (Suc n) (history cs)
                        @ [\<lparr> uri = newUri, timestamp = clk 0, tool = Some t \<rparr>])) - 1,
      updatedAt := clk 1 \<rparr>"
  have a: "applyEdit clk newUri t s = s\<lparr> currentSession := Some cs' \<rparr>"
    using assms(1) by (simp add: applyEdit_def Let_def n(1) sl cs'_def)
  have len: "length (take (Suc n) (history cs)) = Suc n"
    using n(2) by simp
  have tail: "x \<notin> set (take (Suc n) (history cs))"
    if "distinct (history cs)" "x \<in> set (drop (Suc n) (history cs))" for x
  proof -
    from that(1) have "distinct (take (Suc n) (history cs) @ drop (Suc n) (history cs))"
      by simp
    then have "set (take (Suc n) (history cs)) \<inter> set (drop (Suc n) (history cs)) = {}"
      by (simp only: distinct_append)
    with that(2) show ?thesis by blast
  qed
  have 1: "currentSession (applyEdit clk newUri t s) = Some cs'"
    by (simp add: a)
  have 2: "history cs' = take (nat (historyIndex cs) + 1) (history cs)
                         @ [\<lparr> uri = newUri, timestamp = clk 0, tool = Some t \<rparr>]"
    by (simp add: cs'_def n_def)
  have 3: "int (length (history cs')) = historyIndex cs + 2"
    using len by (simp add: cs'_def n(1) del: length_take)
  have 4: "historyIndex cs' = int (length (history cs')) - 1"
    by (simp add: cs'_def)
  have 5: "currentUri cs' = newUri"
    by (simp add: cs'_def)
  have 6: "\<not> canRedo (applyEdit clk newUri t s)"
    by (simp add: a canRedo_def 4)
  have 7: "distinct (history cs) \<longrightarrow>
              (\<forall>x \<in> set (drop (nat (historyIndex cs) + 1) (history cs)).
                 x \<noteq> \<lparr> uri = newUri, timestamp = clk 0, tool = Some t \<rparr>
                 \<longrightarrow> x \<notin> set (history cs'))"
    using tail by (auto simp add: cs'_def n_def simp del: take_Suc drop_Suc)
  from 1 2 3 4 5 6 7 show ?thesis by blast
qed

theorem applyEdit_truncates_redo_tail_witness:
  "\<exists>s cs. editor_run (take 3 scenario_calls) initial_state = Inr s \<and>
      currentSession s = Some cs \<and> 0 \<le> historyIndex cs \<and>
      historyIndex cs < int (length (history cs)) - 1 \<and> distinct (history cs) \<and>
      \<lparr> uri = ''e1.jpg'', timestamp = 2000, tool = Some AutoEnhance \<rparr>
        \<in> set (drop (nat (historyIndex cs) + 1) (history cs)) \<and>
      (\<exists>cs'. currentSession (applyEdit (clock_from 4000) ''e2.jpg'' SmartCrop s) = Some cs' \<and>
         map uri (history cs') = [''orig.jpg'', ''e2.jpg''] \<and>
         length (history cs') = 2 \<and> historyIndex cs' = 1 \<and>
         \<lparr> uri = ''e1.jpg'', timestamp = 2000, tool = Some AutoEnhance \<rparr>
           \<notin> set (history cs'))"
proof -
  define cs where "cs =
     \<lparr> session_id = ''session_1000'', originalUri = ''orig.jpg'',
       currentUri = ''orig.jpg'',
       history = [\<lparr> uri = ''orig.jpg'', timestamp = 1001, tool = None \<rparr>,
                  \<lparr> uri = ''e1.jpg'', timestamp = 2000, tool = Some AutoEnhance \<rparr>],
       historyIndex = 0, createdAt = 1002, updatedAt = 3000 \<rparr>"
  define s where "s =
     \<lparr> currentSession = Some cs,
       isProcessing = False, processingMessage = [], selectedTool = None,
       selection = None, showCompare = False, showHistory = False,
       recentEdits = [] \<rparr>"
  have r: "editor_run (take 3 scenario_calls) initial_state = Inr s"
    by (simp add: scenario_prefix3 s_def cs_def)
  have h: "currentSession s = Some cs" "0 \<le> historyIndex cs"
    "historyIndex cs < int (length (history cs)) - 1"
    by (simp_all add: s_def cs_def)
  have d: "distinct (history cs)"
    by (simp add: cs_def)
  have m: "\<lparr> uri = ''e1.jpg'', timestamp = 2000, tool = Some AutoEnhance \<rparr>
        \<in> set (drop (nat (historyIndex cs) + 1) (history cs))"
    by (simp add: cs_def)
  from applyEdit_truncates_redo_tail [OF h, of "clock_from 4000" "''e2.jpg''" SmartCrop]
  obtain cs' where cs': "currentSession (applyEdit (clock_from 4000) ''e2.jpg'' SmartCrop s) = Some cs'"
      "history cs' = take (nat (historyIndex cs) + 1) (history cs)
                         @ [\<lparr> uri = ''e2.jpg'', timestamp = clock_from 4000 0, tool = Some SmartCrop \<rparr>]"
      "distinct (history cs) \<longrightarrow>
              (\<forall>x \<in> set (drop (nat (historyIndex cs) + 1) (history cs)).
                 x \<noteq> \<lparr> uri = ''e2.jpg'', timestamp = clock_from 4000 0, tool = Some SmartCrop \<rparr>
                 \<longrightarrow> x \<notin> set (history cs'))"
      "historyIndex cs' = int (length (history cs')) - 1"
    by blast
  have u: "map uri (history cs') = [''orig.jpg'', ''e2.jpg'']" "length (history cs') = 2"
    by (simp_all add: cs'(2) cs_def)
  have i: "historyIndex cs' = 1"
    by (simp add: cs'(4) u(2))
  have g: "\<lparr> uri = ''e1.jpg'', timestamp = 2000, tool = Some AutoEnhance \<rparr>
           \<notin> set (history cs')"
    using cs'(3) d m by auto
  show ?thesis
    apply (rule exI [of _ s], rule exI [of _ cs])
    apply (intro conjI r h d m)
    apply (rule exI [of _ cs'])
    apply (intro conjI cs'(1) u i g)
    done
qed


section \<open>Properties of the image cache\<close>

subsection \<open>Sequencing\<close>

lemma andThen_Return: "m s = (Return x, s') \<Longrightarrow> andThen m f s = f x s'"
  by (simp add: andThen_def)

lemma andThen_Throw: "m s = (Throw e, s') \<Longrightarrow> andThen m f s = (Throw e, s')"
  by (simp add: andThen_def)

lemma tryCatch_Return: "m s = (Return x, s') \<Longrightarrow> tryCatch m h s = (Return x, s')"
  by (simp add: tryCatch_def)

lemma tryCatch_Throw: "m s = (Throw e, s') \<Longrightarrow> tryCatch m h s = h e s'"
  by (simp add: tryCatch_def)

lemma io_eq: "f (world s) = (r, w) \<Longrightarrow> io f s = (r, s\<lparr> world := w \<rparr>)"
  by (simp add: io_def)

lemma io_frame: "index (snd (io f s)) = index s" "initialized (snd (io f s)) = initialized s"
  by (simp_all add: io_def split: prod.splits)

lemma now_frame: "index (snd (now api s)) = index s" "initialized (snd (now api s)) = initialized s"
  by (simp_all add: now_def split: prod.splits)

lemma now_Return: "\<exists>t. fst (now api s) = Return t"
  by (simp add: now_def split: prod.splits)

lemma saveIndex_frame:
  "index (snd (saveIndex api s)) = index s" "initialized (snd (saveIndex api s)) = initialized s"
  by (simp_all add: saveIndex_def io_frame)

lemma cleanup_loop_initialized: "initialized (snd (cleanup_loop api nw xs s)) = initialized s"
proof (induction xs arbitrary: s)
  case Nil
  then show ?case by (simp add: ret_def)
next
  case (Cons x xs)
  obtain key entry where x: "x = (key, entry)" by (cases x)
  show ?case
  proof (cases "nw - entry_timestamp entry > MAX_CACHE_AGE")
    case False
    then show ?thesis using Cons.IH x by simp
  next
    case True
    obtain r w where d: "deleteAsync api (entry_uri entry) (world s) = (r, w)"
      by (cases "deleteAsync api (entry_uri entry) (world s)")
    show ?thesis
    proof (cases r)
      case (Throw e)
      then show ?thesis using True x d by (simp add: andThen_def io_def)
    next
      case (Return u)
      then show ?thesis
        using True x d Cons.IH [of "drop_entry key entry (s\<lparr> world := w \<rparr>)"]
        by (simp add: andThen_def io_def modify_def drop_entry_def)
    qed
  qed
qed

lemma cleanup_initialized: "initialized (snd (cleanup api s)) = initialized s"
proof -
  obtain t w where n: "date_now api (world s) = (t, w)"
    by (cases "date_now api (world s)")
  let ?s1 = "s\<lparr> world := w \<rparr>"
  obtain r s2 where l: "cleanup_loop api t (entries (index ?s1)) ?s1 = (r, s2)"
    by (cases "cleanup_loop api t (entries (index ?s1)) ?s1")
  have i2: "initialized s2 = initialized s"
    using cleanup_loop_initialized [of api t "entries (index ?s1)" ?s1] l by simp
  show ?thesis
  proof (cases r)
    case (Throw e)
    then show ?thesis using n l i2 by (simp add: cleanup_def andThen_def now_def)
  next
    case (Return u)
    then show ?thesis
      using n l i2 saveIndex_frame(2) [of api s2]
      by (simp add: cleanup_def andThen_def now_def)
  qed
qed

text \<open>The handler of \<open>initialize\<close>, and the body it guards.\<close>

lemma initialize_returns:
  "\<exists>s'. initialize api s = (Return (), s') \<and> initialized s'"
proof (cases "initialized s")
  case True
  then show ?thesis by (simp add: initialize_def)
next
  case False
  let ?body = "andThen (io (makeDirectoryAsync api (CACHE_DIR api))) (\<lambda>_.
           andThen (io (makeDirectoryAsync api (EDITS_DIR api))) (\<lambda>_.
           andThen (io (getInfoAsync api (indexPath api))) (\<lambda>indexInfo.
           andThen
             (if info_exists indexInfo
              then andThen (io (readAsStringAsync api (indexPath api))) (\<lambda>indexData s1.
                     (case JSON_parse indexData of
                        Throw e \<Rightarrow> (Throw e, s1)
                      | Return i \<Rightarrow> (Return (), s1\<lparr> index := i \<rparr>)))
              else ret ()) (\<lambda>_.
           andThen (modify (\<lambda>s1. s1\<lparr> initialized := True \<rparr>)) (\<lambda>_.
           cleanup api)))))"
  obtain r s1 where b: "?body s = (r, s1)" by (cases "?body s")
  show ?thesis
  proof (cases r)
    case (Throw e)
    then show ?thesis using False b
      by (simp add: initialize_def tryCatch_def modify_def)
  next
    case (Return u)
    have "initialized s1"
      using b Return
      by (auto simp add: andThen_def modify_def split: prod.splits outcome.splits if_splits
          dest!: arg_cong [where f = "\<lambda>p. initialized (snd p)"]
          simp add: cleanup_initialized)
    then show ?thesis using False b Return
      by (simp add: initialize_def tryCatch_def)
  qed
qed


lemma cleanup_empty:
  assumes "entries (index s) = []"
  shows "index (snd (cleanup api s)) = index s"
proof -
  obtain t w where n: "date_now api (world s) = (t, w)"
    by (cases "date_now api (world s)")
  show ?thesis
    using n assms saveIndex_frame(1) [of api "s\<lparr> world := w \<rparr>"]
    by (simp add: cleanup_def andThen_def now_def ret_def)
qed

lemma guarded_cleanup_empty:
  assumes "index s = empty_index"
  shows "index (snd (tryCatch (cleanup api)
            (\<lambda>error. modify (\<lambda>s1. s1\<lparr> index := empty_index, initialized := True \<rparr>)) s))
         = empty_index"
proof -
  obtain r s1 where c: "cleanup api s = (r, s1)" by (cases "cleanup api s")
  have "index s1 = empty_index"
    using cleanup_empty [of s api] assms c by (simp add: empty_index_def)
  with c show ?thesis
    by (cases r) (simp_all add: tryCatch_def modify_def)
qed

lemmas prog_defs = andThen_def tryCatch_def io_def now_def modify_def ret_def throw_def


lemmas mem_defs = mem_fs_def under_def

subsection \<open>cacheImage\<close>



lemma generateKey_frame:
  "index (snd (generateKey api sourceUri operation s)) = index s"
  "initialized (snd (generateKey api sourceUri operation s)) = initialized s"
  by (simp_all add: generateKey_def Let_def andThen_def now_def ret_def split: prod.splits)




subsection \<open>getCached\<close>

lemma length_delete_key:
  "distinct (map fst xs) \<Longrightarrow> map_of xs k = Some v \<Longrightarrow>
     Suc (length (AList.delete k xs)) = length xs"
proof (induction xs)
  case Nil
  then show ?case by simp
next
  case (Cons x xs)
  obtain k' v' where x: "x = (k', v')" by (cases x)
  show ?case
  proof (cases "k' = k")
    case True
    with Cons.prems x have "k \<notin> fst ` set xs" by auto
    then have "AList.delete k xs = xs"
      by (simp add: delete_id)
    with True x show ?thesis by (simp add: AList.delete_eq)
  next
    case False
    with Cons x show ?thesis by (simp add: AList.delete_eq)
  qed
qed

text \<open>
  C8. getCached first runs initialize; the entry is looked up in the index this leaves
  (the index itself, on an initialized cache). When the entry's file is reported
  missing, the entry is removed, totalSize is decreased by its size, the index is written
  to the index file, and the result is null (unless the write throws, which getCached
  does not catch); the entry count of getStats decreases by one. When the file exists,
  the entry's timestamp becomes the current time, nothing else in the index changes, the
  index is written and the result is the entry's uri.
\<close>

theorem getCached_prunes_stale_and_touches_live:
  assumes "initialize api s = (Return (), s1)"
    and "distinct (map fst (entries (index s1)))"
    and "map_of (entries (index s1)) key = Some entry"
    and "getInfoAsync api (entry_uri entry) (world s1) = (Return info, w2)"
  shows "(\<not> info_exists info \<longrightarrow>
           (let idx' = \<lparr> entries = AList.delete key (entries (index s1)),
                          totalSize = totalSize (index s1) - entry_size entry \<rparr>
            in (case writeAsStringAsync api (indexPath api) (JSON_stringify idx') w2 of
                  (r, w3) \<Rightarrow>
                    getCached api key s =
                      ((case r of Throw e \<Rightarrow> Throw e | Return u \<Rightarrow> Return None),
                       s1\<lparr> index := idx', world := w3 \<rparr>) \<and>
                    map_of (entries idx') key = None \<and>
                    entryCount (getStats (s1\<lparr> index := idx', world := w3 \<rparr>)) + 1
                      = entryCount (getStats s1) \<and>
                    stats_totalSize (getStats (s1\<lparr> index := idx', world := w3 \<rparr>))
                      = stats_totalSize (getStats s1) - entry_size entry)))
       \<and> (info_exists info \<longrightarrow>
           (case date_now api w2 of
              (t, w3) \<Rightarrow>
                (let idx' = (index s1)\<lparr> entries :=
                              AList.update key (entry\<lparr> entry_timestamp := t \<rparr>)
                                (entries (index s1)) \<rparr>
                 in (case writeAsStringAsync api (indexPath api) (JSON_stringify idx') w3 of
                       (r, w4) \<Rightarrow>
                         getCached api key s =
                           ((case r of Throw e \<Rightarrow> Throw e
                                     | Return u \<Rightarrow> Return (Some (entry_uri entry))),
                            s1\<lparr> index := idx', world := w4 \<rparr>) \<and>
                         map_of (entries idx') key = Some (entry\<lparr> entry_timestamp := t \<rparr>) \<and>
                         (\<forall>k. k \<noteq> key \<longrightarrow>
                            map_of (entries idx') k = map_of (entries (index s1)) k) \<and>
                         map fst (entries idx') = map fst (entries (index s1)) \<and>
                         totalSize idx' = totalSize (index s1)))))"
proof (intro conjI impI)
  assume st: "\<not> info_exists info"
  define idx' where "idx' = \<lparr> entries = AList.delete key (entries (index s1)),
                          totalSize = totalSize (index s1) - entry_size entry \<rparr>"
  obtain r w3 where wr: "writeAsStringAsync api (indexPath api) (JSON_stringify idx') w2 = (r, w3)"
    by (cases "writeAsStringAsync api (indexPath api) (JSON_stringify idx') w2")
  have g: "getCached api key s =
             ((case r of Throw e \<Rightarrow> Throw e | Return u \<Rightarrow> Return None),
              s1\<lparr> index := idx', world := w3 \<rparr>)"
    using assms(1,3,4) st wr
    by (cases r) (simp_all add: getCached_def andThen_def io_def modify_def saveIndex_def
        ret_def idx'_def)
  have m: "map_of (entries idx') key = None"
    by (simp add: idx'_def delete_conv')
  have c: "entryCount (getStats (s1\<lparr> index := idx', world := w3 \<rparr>)) + 1
             = entryCount (getStats s1)"
    using length_delete_key [OF assms(2,3)] by (simp add: getStats_def idx'_def)
  have t: "stats_totalSize (getStats (s1\<lparr> index := idx', world := w3 \<rparr>))
             = stats_totalSize (getStats s1) - entry_size entry"
    by (simp add: getStats_def idx'_def)
  from g m c t wr
  show "let idx' = \<lparr> entries = AList.delete key (entries (index s1)),
                          totalSize = totalSize (index s1) - entry_size entry \<rparr>
            in (case writeAsStringAsync api (indexPath api) (JSON_stringify idx') w2 of
                  (r, w3) \<Rightarrow>
                    getCached api key s =
                      ((case r of Throw e \<Rightarrow> Throw e | Return u \<Rightarrow> Return None),
                       s1\<lparr> index := idx', world := w3 \<rparr>) \<and>
                    map_of (entries idx') key = None \<and>
                    entryCount (getStats (s1\<lparr> index := idx', world := w3 \<rparr>)) + 1
                      = entryCount (getStats s1) \<and>
                    stats_totalSize (getStats (s1\<lparr> index := idx', world := w3 \<rparr>))
                      = stats_totalSize (getStats s1) - entry_size entry)"
    unfolding Let_def idx'_def [symmetric] by simp
next
  assume lv: "info_exists info"
  obtain t w3 where dn: "date_now api w2 = (t, w3)"
    by (cases "date_now api w2")
  define idx' where "idx' = (index s1)\<lparr> entries :=
                              AList.update key (entry\<lparr> entry_timestamp := t \<rparr>)
                                (entries (index s1)) \<rparr>"
  obtain r w4 where wr: "writeAsStringAsync api (indexPath api) (JSON_stringify idx') w3 = (r, w4)"
    by (cases "writeAsStringAsync api (indexPath api) (JSON_stringify idx') w3")
  have g: "getCached api key s =
             ((case r of Throw e \<Rightarrow> Throw e | Return u \<Rightarrow> Return (Some (entry_uri entry))),
              s1\<lparr> index := idx', world := w4 \<rparr>)"
    using assms(1,3,4) lv dn wr
    by (cases r) (simp_all add: getCached_def andThen_def io_def modify_def saveIndex_def
        ret_def now_def idx'_def)
  have m: "map_of (entries idx') key = Some (entry\<lparr> entry_timestamp := t \<rparr>)"
    by (simp add: idx'_def update_conv')
  have o: "\<forall>k. k \<noteq> key \<longrightarrow> map_of (entries idx') k = map_of (entries (index s1)) k"
    by (simp add: idx'_def update_conv')
  have "key \<in> fst ` set (entries (index s1))"
    using assms(3) by (metis domI dom_map_of_conv_image_fst)
  then have k: "map fst (entries idx') = map fst (entries (index s1))"
    by (simp add: idx'_def update_keys)
  have ts: "totalSize idx' = totalSize (index s1)"
    by (simp add: idx'_def)
  from g m o k ts wr dn
  show "case date_now api w2 of
              (t, w3) \<Rightarrow>
                (let idx' = (index s1)\<lparr> entries :=
                              AList.update key (entry\<lparr> entry_timestamp := t \<rparr>)
                                (entries (index s1)) \<rparr>
                 in (case writeAsStringAsync api (indexPath api) (JSON_stringify idx') w3 of
                       (r, w4) \<Rightarrow>
                         getCached api key s =
                           ((case r of Throw e \<Rightarrow> Throw e
                                     | Return u \<Rightarrow> Return (Some (entry_uri entry))),
                            s1\<lparr> index := idx', world := w4 \<rparr>) \<and>
                         map_of (entries idx') key = Some (entry\<lparr> entry_timestamp := t \<rparr>) \<and>
                         (\<forall>k. k \<noteq> key \<longrightarrow>
                            map_of (entries idx') k = map_of (entries (index s1)) k) \<and>
                         map fst (entries idx') = map fst (entries (index s1)) \<and>
                         totalSize idx' = totalSize (index s1)))"
    unfolding Let_def idx'_def by simp
qed


theorem getCached_prunes_stale_and_touches_live_witness:
  "initialize mem_fs \<lparr> index = persisted_index, initialized = True, world = stale_world \<rparr>
     = (Return (), \<lparr> index = persisted_index, initialized = True, world = stale_world \<rparr>) \<and>
   distinct (map fst (entries persisted_index)) \<and>
   map_of (entries persisted_index) ''a_1000''
     = Some \<lparr> entry_uri = ''cache/aidit/a_1000.jpg'', entry_timestamp = 1000, entry_size = 10 \<rparr> \<and>
   getInfoAsync mem_fs ''cache/aidit/a_1000.jpg'' stale_world
     = (Return \<lparr> info_exists = False, info_size = None \<rparr>, stale_world) \<and>
   getInfoAsync mem_fs ''cache/aidit/a_1000.jpg'' live_world
     = (Return \<lparr> info_exists = True, info_size = Some 10 \<rparr>, live_world) \<and>
   fst (getCached mem_fs ''a_1000''
          \<lparr> index = persisted_index, initialized = True, world = stale_world \<rparr>) = Return None \<and>
   index (snd (getCached mem_fs ''a_1000''
          \<lparr> index = persisted_index, initialized = True, world = stale_world \<rparr>))
     = \<lparr> entries = [], totalSize = 0 \<rparr> \<and>
   entryCount (getStats \<lparr> index = persisted_index, initialized = True, world = stale_world \<rparr>) = 1 \<and>
   fst (getCached mem_fs ''a_1000''
          \<lparr> index = persisted_index, initialized = True, world = live_world \<rparr>)
     = Return (Some ''cache/aidit/a_1000.jpg'') \<and>
   index (snd (getCached mem_fs ''a_1000''
          \<lparr> index = persisted_index, initialized = True, world = live_world \<rparr>))
     = \<lparr> entries = [(''a_1000'',
          \<lparr> entry_uri = ''cache/aidit/a_1000.jpg'', entry_timestamp = 5000, entry_size = 10 \<rparr>)],
         totalSize = 10 \<rparr>"
proof -
  let ?e = "\<lparr> entry_uri = ''cache/aidit/a_1000.jpg'', entry_timestamp = 1000, entry_size = 10 \<rparr>"
  let ?st = "\<lparr> index = persisted_index, initialized = True, world = stale_world \<rparr>"
  let ?lv = "\<lparr> index = persisted_index, initialized = True, world = live_world \<rparr>"
  have a: "initialize mem_fs ?st = (Return (), ?st)" "initialize mem_fs ?lv = (Return (), ?lv)"
    by (simp_all add: initialize_def)
  have b: "distinct (map fst (entries (index ?st)))" "distinct (map fst (entries (index ?lv)))"
    by (simp_all add: persisted_index_def)
  have c: "map_of (entries (index ?st)) ''a_1000'' = Some ?e"
    "map_of (entries (index ?lv)) ''a_1000'' = Some ?e"
    by (simp_all add: persisted_index_def)
  have d: "getInfoAsync mem_fs (entry_uri ?e) (world ?st)
             = (Return \<lparr> info_exists = False, info_size = None \<rparr>, stale_world)"
    by (simp add: mem_fs_def stale_world_def)
  have d': "getInfoAsync mem_fs (entry_uri ?e) (world ?lv)
             = (Return \<lparr> info_exists = True, info_size = Some 10 \<rparr>, live_world)"
    by (simp add: mem_fs_def live_world_def)
  have s: "fst (getCached mem_fs ''a_1000'' ?st) = Return None \<and>
           index (snd (getCached mem_fs ''a_1000'' ?st)) = \<lparr> entries = [], totalSize = 0 \<rparr>"
    using getCached_prunes_stale_and_touches_live [OF a(1) b(1) c(1) d]
    by (simp add: Let_def mem_fs_def persisted_index_def AList.delete_eq)
  have l: "fst (getCached mem_fs ''a_1000'' ?lv) = Return (Some ''cache/aidit/a_1000.jpg'') \<and>
           index (snd (getCached mem_fs ''a_1000'' ?lv))
             = \<lparr> entries = [(''a_1000'',
                  \<lparr> entry_uri = ''cache/aidit/a_1000.jpg'', entry_timestamp = 5000,
                    entry_size = 10 \<rparr>)], totalSize = 10 \<rparr>"
    using getCached_prunes_stale_and_touches_live [OF a(2) b(2) c(2) d']
    by (simp add: Let_def mem_fs_def persisted_index_def live_world_def)
  have n: "entryCount (getStats ?st) = 1"
    by (simp add: getStats_def persisted_index_def)
  from a b c d d' s l n show ?thesis by simp
qed


subsection \<open>delete\<close>

lemma find_key_None:
  "find_key idx u = None \<longleftrightarrow>
     (\<forall>k e. map_of (entries idx) k = Some e \<longrightarrow> entry_uri e \<noteq> u)"
proof -
  have "find_key idx u = None \<longleftrightarrow>
      (\<forall>k \<in> fst ` set (entries idx).
         \<not> (case map_of (entries idx) k of None \<Rightarrow> False | Some e \<Rightarrow> entry_uri e = u))"
    by (simp add: find_key_def find_None_iff)
  also have "\<dots> \<longleftrightarrow> (\<forall>k e. map_of (entries idx) k = Some e \<longrightarrow> entry_uri e \<noteq> u)"
    by (auto simp add: dom_map_of_conv_image_fst [symmetric] split: option.splits)
  finally show ?thesis .
qed

lemma find_key_Some:
  assumes "find_key idx u = Some k"
  shows "\<exists>e. map_of (entries idx) k = Some e \<and> entry_uri e = u"
  using assms
  by (auto simp add: find_key_def find_Some_iff split: option.splits)

text \<open>
  C9. delete never throws. When at most one key of the index has an entry with the
  given uri (the uri of an entry that cacheImage makes contains its key), and the file
  system treats the repeated deletion as it did the first one without changing
  anything (\<^verbatim>\<open>idempotent: true\<close>), a second call of delete changes nothing: index,
  totalSize and world are those the first call left.
\<close>

theorem delete_twice_is_delete_once:
  assumes "\<forall>k1 e1 k2 e2. map_of (entries (index s)) k1 = Some e1 \<and>
              map_of (entries (index s)) k2 = Some e2 \<and>
              entry_uri e1 = u \<and> entry_uri e2 = u \<longrightarrow> k1 = k2"
    and "deleteAsync api u (world (snd (delete api u s)))
           = (fst (deleteAsync api u (world s)), world (snd (delete api u s)))"
  shows "fst (delete api u s) = Return () \<and>
         delete api u (snd (delete api u s)) = (Return (), snd (delete api u s))"
proof -
  obtain r w1 where d: "deleteAsync api u (world s) = (r, w1)"
    by (cases "deleteAsync api u (world s)")
  show ?thesis
  proof (cases r)
    case (Throw x)
    have 1: "delete api u s = (Return (), s\<lparr> world := w1 \<rparr>)"
      using d Throw by (simp add: delete_def tryCatch_def andThen_def io_def ret_def)
    with assms(2) d Throw have "deleteAsync api u w1 = (Throw x, w1)" by simp
    then have "delete api u (s\<lparr> world := w1 \<rparr>) = (Return (), s\<lparr> world := w1 \<rparr>)"
      by (simp add: delete_def tryCatch_def andThen_def io_def ret_def)
    with 1 show ?thesis by simp
  next
    case (Return x)
    show ?thesis
    proof (cases "\<exists>k. find_key (index s) u = Some k \<and> k \<noteq> []")
      case False
      then have f: "find_key (index s) u = None \<or> find_key (index s) u = Some []"
        by (cases "find_key (index s) u") auto
      have 1: "delete api u s = (Return (), s\<lparr> world := w1 \<rparr>)"
        using d Return f by (auto simp add: delete_def tryCatch_def andThen_def io_def)
      with assms(2) d Return have "deleteAsync api u w1 = (Return x, w1)" by simp
      then have "delete api u (s\<lparr> world := w1 \<rparr>) = (Return (), s\<lparr> world := w1 \<rparr>)"
        using f by (auto simp add: delete_def tryCatch_def andThen_def io_def)
      with 1 show ?thesis by simp
    next
      case True
      then obtain k where k: "find_key (index s) u = Some k" "k \<noteq> []" by blast
      from find_key_Some [OF k(1)]
      obtain e where e: "map_of (entries (index s)) k = Some e" "entry_uri e = u" by blast
      define idx' where "idx' = \<lparr> entries = AList.delete k (entries (index s)),
                                    totalSize = totalSize (index s) - entry_size e \<rparr>"
      obtain r2 w2 where wr:
        "writeAsStringAsync api (indexPath api) (JSON_stringify idx') w1 = (r2, w2)"
        by (cases "writeAsStringAsync api (indexPath api) (JSON_stringify idx') w1")
      have 1: "delete api u s = (Return (), s\<lparr> index := idx', world := w2 \<rparr>)"
        using d Return k e wr
        by (cases r2) (simp_all add: delete_def tryCatch_def andThen_def io_def modify_def
            saveIndex_def ret_def idx'_def)
      have n: "find_key idx' u = None"
      proof -
        {
          fix k' e'
          assume a: "map_of (entries idx') k' = Some e'" "entry_uri e' = u"
          then have "k' \<noteq> k" "map_of (entries (index s)) k' = Some e'"
            by (auto simp add: idx'_def delete_conv' split: if_splits)
          with assms(1) e a(2) have False by blast
        }
        then show ?thesis unfolding find_key_None by blast
      qed
      from assms(2) d Return 1 have "deleteAsync api u w2 = (Return x, w2)" by simp
      then have "delete api u (s\<lparr> index := idx', world := w2 \<rparr>)
                   = (Return (), s\<lparr> index := idx', world := w2 \<rparr>)"
        using n by (simp add: delete_def tryCatch_def andThen_def io_def)
      with 1 show ?thesis by simp
    qed
  qed
qed

theorem delete_twice_is_delete_once_witness:
  "map fst (filter (\<lambda>(k, e). entry_uri e = ''cache/aidit/a_1000.jpg'')
      (entries persisted_index)) = [''a_1000''] \<and>
   delete mem_fs ''cache/aidit/a_1000.jpg''
       \<lparr> index = persisted_index, initialized = True, world = live_world \<rparr>
     = (Return (),
        \<lparr> index = \<lparr> entries = [], totalSize = 0 \<rparr>, initialized = True,
          world = \<lparr> files = [(''cache/aidit/index.json'',
                               Doc (IndexJson \<lparr> entries = [], totalSize = 0 \<rparr>))],
                    clock = [5000] \<rparr> \<rparr>) \<and>
   delete mem_fs ''cache/aidit/a_1000.jpg''
       (snd (delete mem_fs ''cache/aidit/a_1000.jpg''
          \<lparr> index = persisted_index, initialized = True, world = live_world \<rparr>))
     = (Return (),
        \<lparr> index = \<lparr> entries = [], totalSize = 0 \<rparr>, initialized = True,
          world = \<lparr> files = [(''cache/aidit/index.json'',
                               Doc (IndexJson \<lparr> entries = [], totalSize = 0 \<rparr>))],
                    clock = [5000] \<rparr> \<rparr>)"
proof -
  let ?s = "\<lparr> index = persisted_index, initialized = True, world = live_world \<rparr>"
  let ?u = "''cache/aidit/a_1000.jpg''"
  have a: "\<forall>k1 e1 k2 e2. map_of (entries (index ?s)) k1 = Some e1 \<and>
       map_of (entries (index ?s)) k2 = Some e2 \<and>
       entry_uri e1 = ?u \<and> entry_uri e2 = ?u \<longrightarrow> k1 = k2"
    by (simp add: persisted_index_def split: if_splits)
  have d: "delete mem_fs ?u ?s
     = (Return (),
        \<lparr> index = \<lparr> entries = [], totalSize = 0 \<rparr>, initialized = True,
          world = \<lparr> files = [(''cache/aidit/index.json'',
                               Doc (IndexJson \<lparr> entries = [], totalSize = 0 \<rparr>))],
                    clock = [5000] \<rparr> \<rparr>)"
    by (simp add: delete_def find_key_def saveIndex_def indexPath_def CACHE_DIR_def
        JSON_stringify_def prog_defs mem_defs persisted_index_def live_world_def
        AList.delete_eq)
  let ?w = "\<lparr> files = [(''cache/aidit/index.json'',
                               Doc (IndexJson \<lparr> entries = [], totalSize = 0 \<rparr>))],
                    clock = [5000] \<rparr>"
  have w: "world (snd (delete mem_fs ?u ?s)) = ?w"
    by (simp add: d)
  have f: "fst (deleteAsync mem_fs ?u (world ?s)) = Return ()"
    by (simp add: mem_fs_def)
  have g: "deleteAsync mem_fs ?u ?w = (Return (), ?w)"
    by (simp add: mem_fs_def under_def)
  have b: "deleteAsync mem_fs ?u (world (snd (delete mem_fs ?u ?s)))
           = (fst (deleteAsync mem_fs ?u (world ?s)), world (snd (delete mem_fs ?u ?s)))"
    by (simp only: w f g)
  have a': "map fst (filter (\<lambda>(k, e). entry_uri e = ?u) (entries persisted_index))
              = [''a_1000'']"
    by (simp add: persisted_index_def)
  have t: "delete mem_fs ?u (snd (delete mem_fs ?u ?s)) = (Return (), snd (delete mem_fs ?u ?s))"
    using delete_twice_is_delete_once [OF a b] by (rule conjunct2)
  have t': "delete mem_fs ?u (snd (delete mem_fs ?u ?s))
     = (Return (),
        \<lparr> index = \<lparr> entries = [], totalSize = 0 \<rparr>, initialized = True,
          world = \<lparr> files = [(''cache/aidit/index.json'',
                               Doc (IndexJson \<lparr> entries = [], totalSize = 0 \<rparr>))],
                    clock = [5000] \<rparr> \<rparr>)"
    using t unfolding d by (simp only: snd_conv)
  show ?thesis by (rule conjI [OF a' conjI [OF d t']])
qed


subsection \<open>evictIfNeeded\<close>

lemma under_target_iff:
  "real_of_int t \<le> real_of_int MAX_CACHE_SIZE * 0.8 \<longleftrightarrow> t \<le> 83886080"
proof -
  have "real_of_int MAX_CACHE_SIZE * 0.8 = real_of_int 83886080"
    by (simp add: MAX_CACHE_SIZE_def)
  then show ?thesis by (simp only: of_int_le_iff)
qed

lemma evicted_Nil: "evicted api [] s = s"
  by (simp add: evicted_def split_def)

lemma evicted_Cons:
  "evicted api ((k, e) # vs) s =
     evicted api vs (drop_entry k e (s\<lparr> world := snd (deleteAsync api (entry_uri e) (world s)) \<rparr>))"
proof -
  have "filter (\<lambda>(k', e'). k' \<notin> fst ` set vs) (AList.delete k (entries (index s)))
          = filter (\<lambda>(k', e'). k' \<notin> fst ` set ((k, e) # vs)) (entries (index s))"
    by (auto simp add: AList.delete_eq split_def intro: filter_cong)
  then show ?thesis
    by (simp add: evicted_def drop_entry_def)
qed

lemma evict_loop_run:
  assumes ok: "\<forall>u w. fst (deleteAsync api u w) = Return ()"
  shows "\<exists>n \<le> length xs.
           evict_loop api xs s = (Return (), evicted api (take n xs) s) \<and>
           (\<forall>m < n. \<not> real_of_int (totalSize (index s)
                          - sum_list (map (\<lambda>(k, e). entry_size e) (take m xs)))
                        \<le> real_of_int MAX_CACHE_SIZE * 0.8) \<and>
           (n < length xs \<longrightarrow>
              real_of_int (totalSize (index (evicted api (take n xs) s)))
                \<le> real_of_int MAX_CACHE_SIZE * 0.8)"
proof (induction xs arbitrary: s)
  case Nil
  show ?case by (simp add: ret_def evicted_Nil)
next
  case (Cons x xs)
  obtain k e where x: "x = (k, e)" by (cases x)
  show ?case
  proof (cases "real_of_int (totalSize (index s)) \<le> real_of_int MAX_CACHE_SIZE * 0.8")
    case True
    then have "evict_loop api (x # xs) s = (Return (), evicted api (take 0 (x # xs)) s) \<and>
           (\<forall>m < (0::nat). \<not> real_of_int (totalSize (index s)
                          - sum_list (map (\<lambda>(k, e). entry_size e) (take m (x # xs))))
                        \<le> real_of_int MAX_CACHE_SIZE * 0.8) \<and>
           (0 < length (x # xs) \<longrightarrow>
              real_of_int (totalSize (index (evicted api (take 0 (x # xs)) s)))
                \<le> real_of_int MAX_CACHE_SIZE * 0.8)"
      by (simp add: x evicted_Nil)
    then show ?thesis by blast
  next
    case False
    define w1 where "w1 = snd (deleteAsync api (entry_uri e) (world s))"
    define s1 where "s1 = drop_entry k e (s\<lparr> world := w1 \<rparr>)"
    have d: "deleteAsync api (entry_uri e) (world s) = (Return (), w1)"
      using ok by (metis prod.collapse w1_def)
    have step: "evict_loop api (x # xs) s = evict_loop api xs s1"
      using False d by (simp add: x andThen_def io_def modify_def s1_def)
    have ev: "evicted api ((k, e) # vs) s = evicted api vs s1" for vs
      by (simp add: evicted_Cons s1_def w1_def)
    have ts: "totalSize (index s1) = totalSize (index s) - entry_size e"
      by (simp add: s1_def drop_entry_def)
    from Cons.IH [of s1] obtain n where n: "n \<le> length xs"
      "evict_loop api xs s1 = (Return (), evicted api (take n xs) s1)"
      "\<forall>m < n. \<not> real_of_int (totalSize (index s1)
                          - sum_list (map (\<lambda>(k, e). entry_size e) (take m xs)))
                        \<le> real_of_int MAX_CACHE_SIZE * 0.8"
      "n < length xs \<longrightarrow>
              real_of_int (totalSize (index (evicted api (take n xs) s1)))
                \<le> real_of_int MAX_CACHE_SIZE * 0.8"
      by blast
    have 1: "Suc n \<le> length (x # xs)" using n(1) by simp
    have 2: "evict_loop api (x # xs) s = (Return (), evicted api (take (Suc n) (x # xs)) s)"
      using step n(2) by (simp add: x ev)
    have 3: "\<not> real_of_int (totalSize (index s)
                          - sum_list (map (\<lambda>(k, e). entry_size e) (take m (x # xs))))
                        \<le> real_of_int MAX_CACHE_SIZE * 0.8" if "m < Suc n" for m
    proof (cases m)
      case 0
      then show ?thesis using False by simp
    next
      case (Suc m')
      with that have "m' < n" by simp
      with n(3) have "\<not> real_of_int (totalSize (index s1)
                          - sum_list (map (\<lambda>(k, e). entry_size e) (take m' xs)))
                        \<le> real_of_int MAX_CACHE_SIZE * 0.8" by blast
      moreover have "totalSize (index s1) - sum_list (map (\<lambda>(k, e). entry_size e) (take m' xs))
          = totalSize (index s) - sum_list (map (\<lambda>(k, e). entry_size e) (take m (x # xs)))"
        by (simp add: ts Suc x)
      ultimately show ?thesis by simp
    qed
    have 4: "Suc n < length (x # xs) \<longrightarrow>
              real_of_int (totalSize (index (evicted api (take (Suc n) (x # xs)) s)))
                \<le> real_of_int MAX_CACHE_SIZE * 0.8"
      using n(4) by (simp add: x ev)
    from 1 2 3 4 show ?thesis by blast
  qed
qed

lemma sum_list_insort_key:
  "sum_list (map g (insort_key f x xs)) = g x + sum_list (map g xs)"
  for g :: "'a \<Rightarrow> int"
  by (induction xs) simp_all

lemma sum_list_sort_key:
  "sum_list (map g (sort_key f xs)) = sum_list (map g xs)"
  for g :: "'a \<Rightarrow> int"
  by (induction xs) (simp_all add: sum_list_insort_key)

lemma sorted_take_drop:
  assumes "sorted (map f xs)"
  shows "\<forall>v \<in> set (take n xs). \<forall>r \<in> set (drop n xs). f v \<le> f r"
proof -
  have "sorted (map f (take n xs) @ map f (drop n xs))"
    using assms by (simp flip: map_append)
  then show ?thesis
    by (auto simp add: sorted_append)
qed


text \<open>
  C4. evictIfNeeded returns the cache as it is, without touching the file system, when
  totalSize is at most MAX_CACHE_SIZE (100 MiB). Above it, in an environment whose
  deleteAsync does not throw, it evicts the first n entries in order of timestamp
  (oldest first; the sort is stable, so entries of equal timestamp keep the order of
  the index), stopping at the first point where the running sum is at most
  0.8 * MAX_CACHE_SIZE or when no entry is left, and then writes the index once. Every
  evicted entry is at least as old as every entry kept. When the loop stops before the
  entries run out, and whenever totalSize was the sum of the entries' sizes, the
  totalSize left is at most 0.8 * MAX_CACHE_SIZE.
\<close>

theorem evictIfNeeded_evicts_oldest_down_to_target:
  "(totalSize (index s) \<le> MAX_CACHE_SIZE \<longrightarrow> evictIfNeeded api s = (Return (), s)) \<and>
   (MAX_CACHE_SIZE < totalSize (index s) \<and> (\<forall>u w. fst (deleteAsync api u w) = Return ()) \<longrightarrow>
      (let ordered = sort_key (\<lambda>(k, e). entry_timestamp e) (entries (index s)) in
         (\<forall>t. filter (\<lambda>(k, e). entry_timestamp e = t) ordered
               = filter (\<lambda>(k, e). entry_timestamp e = t) (entries (index s))) \<and>
         (\<exists>n \<le> length ordered.
            evictIfNeeded api s = saveIndex api (evicted api (take n ordered) s) \<and>
            (\<forall>v \<in> set (take n ordered). \<forall>r \<in> set (drop n ordered).
               entry_timestamp (snd v) \<le> entry_timestamp (snd r)) \<and>
            (\<forall>m < n. \<not> real_of_int (totalSize (index s)
                           - sum_list (map (\<lambda>(k, e). entry_size e) (take m ordered)))
                         \<le> real_of_int MAX_CACHE_SIZE * 0.8) \<and>
            (n < length ordered \<longrightarrow>
               real_of_int (totalSize (index (evicted api (take n ordered) s)))
                 \<le> real_of_int MAX_CACHE_SIZE * 0.8) \<and>
            (totalSize (index s)
               = sum_list (map (\<lambda>(k, e). entry_size e) (entries (index s))) \<longrightarrow>
               real_of_int (totalSize (index (evicted api (take n ordered) s)))
                 \<le> real_of_int MAX_CACHE_SIZE * 0.8))))"
proof (intro conjI impI)
  assume "totalSize (index s) \<le> MAX_CACHE_SIZE"
  then show "evictIfNeeded api s = (Return (), s)"
    by (simp add: evictIfNeeded_def)
next
  assume a: "MAX_CACHE_SIZE < totalSize (index s) \<and> (\<forall>u w. fst (deleteAsync api u w) = Return ())"
  define ordered where "ordered = sort_key (\<lambda>(k, e). entry_timestamp e) (entries (index s))"
  have st: "\<forall>t. filter (\<lambda>(k, e). entry_timestamp e = t) ordered
               = filter (\<lambda>(k, e). entry_timestamp e = t) (entries (index s))"
  proof
    fix t
    have "filter (\<lambda>y. (case y of (k, e) \<Rightarrow> entry_timestamp e) = t) ordered
            = filter (\<lambda>y. (case y of (k, e) \<Rightarrow> entry_timestamp e) = t) (entries (index s))"
      unfolding ordered_def by (rule sort_key_stable)
    then show "filter (\<lambda>(k, e). entry_timestamp e = t) ordered
               = filter (\<lambda>(k, e). entry_timestamp e = t) (entries (index s))"
      by (simp add: split_def)
  qed
  from a have ok: "\<forall>u w. fst (deleteAsync api u w) = Return ()" by blast
  from evict_loop_run [OF ok, of ordered s] obtain n where n: "n \<le> length ordered"
      "evict_loop api ordered s = (Return (), evicted api (take n ordered) s)"
      "\<forall>m < n. \<not> real_of_int (totalSize (index s)
                          - sum_list (map (\<lambda>(k, e). entry_size e) (take m ordered)))
                        \<le> real_of_int MAX_CACHE_SIZE * 0.8"
      "n < length ordered \<longrightarrow>
              real_of_int (totalSize (index (evicted api (take n ordered) s)))
                \<le> real_of_int MAX_CACHE_SIZE * 0.8"
    by blast
  have e: "evictIfNeeded api s = saveIndex api (evicted api (take n ordered) s)"
    using a n(2) by (simp add: evictIfNeeded_def andThen_def ordered_def)
  have "sorted (map (\<lambda>(k, e). entry_timestamp e) ordered)"
    unfolding ordered_def by (rule sorted_sort_key)
  from sorted_take_drop [OF this, of n]
  have o: "\<forall>v \<in> set (take n ordered). \<forall>r \<in> set (drop n ordered).
               entry_timestamp (snd v) \<le> entry_timestamp (snd r)"
    by (simp add: split_def)
  have c: "real_of_int (totalSize (index (evicted api (take n ordered) s)))
                 \<le> real_of_int MAX_CACHE_SIZE * 0.8"
    if eq: "totalSize (index s) = sum_list (map (\<lambda>(k, e). entry_size e) (entries (index s)))"
  proof (cases "n < length ordered")
    case True
    with n(4) show ?thesis by blast
  next
    case False
    with n(1) have "take n ordered = ordered" by simp
    moreover have "sum_list (map (\<lambda>(k, e). entry_size e) ordered)
                     = sum_list (map (\<lambda>(k, e). entry_size e) (entries (index s)))"
      unfolding ordered_def by (rule sum_list_sort_key)
    ultimately have "totalSize (index (evicted api (take n ordered) s)) = 0"
      using eq by (simp add: evicted_def)
    then show ?thesis by (simp only: under_target_iff)
  qed
  from st n(1) e o n(3) n(4) c
  show "let ordered = sort_key (\<lambda>(k, e). entry_timestamp e) (entries (index s)) in
         (\<forall>t. filter (\<lambda>(k, e). entry_timestamp e = t) ordered
               = filter (\<lambda>(k, e). entry_timestamp e = t) (entries (index s))) \<and>
         (\<exists>n \<le> length ordered.
            evictIfNeeded api s = saveIndex api (evicted api (take n ordered) s) \<and>
            (\<forall>v \<in> set (take n ordered). \<forall>r \<in> set (drop n ordered).
               entry_timestamp (snd v) \<le> entry_timestamp (snd r)) \<and>
            (\<forall>m < n. \<not> real_of_int (totalSize (index s)
                           - sum_list (map (\<lambda>(k, e). entry_size e) (take m ordered)))
                         \<le> real_of_int MAX_CACHE_SIZE * 0.8) \<and>
            (n < length ordered \<longrightarrow>
               real_of_int (totalSize (index (evicted api (take n ordered) s)))
                 \<le> real_of_int MAX_CACHE_SIZE * 0.8) \<and>
            (totalSize (index s)
               = sum_list (map (\<lambda>(k, e). entry_size e) (entries (index s))) \<longrightarrow>
               real_of_int (totalSize (index (evicted api (take n ordered) s)))
                 \<le> real_of_int MAX_CACHE_SIZE * 0.8))"
    unfolding Let_def ordered_def [symmetric] by blast
qed


theorem evictIfNeeded_evicts_oldest_down_to_target_witness:
  "totalSize persisted_index \<le> MAX_CACHE_SIZE \<and>
   evictIfNeeded mem_fs \<lparr> index = persisted_index, initialized = True, world = live_world \<rparr>
     = (Return (), \<lparr> index = persisted_index, initialized = True, world = live_world \<rparr>) \<and>
   MAX_CACHE_SIZE < totalSize full_index \<and>
   (\<forall>u w. fst (deleteAsync mem_fs u w) = Return ()) \<and>
   totalSize full_index = sum_list (map (\<lambda>(k, e). entry_size e) (entries full_index)) \<and>
   fst (evictIfNeeded mem_fs \<lparr> index = full_index, initialized = True, world = full_world \<rparr>)
     = Return () \<and>
   map fst (entries (index (snd (evictIfNeeded mem_fs
       \<lparr> index = full_index, initialized = True, world = full_world \<rparr>))))
     = [''b_2000'', ''c_3000''] \<and>
   totalSize (index (snd (evictIfNeeded mem_fs
       \<lparr> index = full_index, initialized = True, world = full_world \<rparr>))) = 83886080 \<and>
   map fst (files (world (snd (evictIfNeeded mem_fs
       \<lparr> index = full_index, initialized = True, world = full_world \<rparr>))))
     = [''cache/aidit/b_2000.jpg'', ''cache/aidit/c_3000.jpg'', ''cache/aidit/index.json''] \<and>
   real_of_int (totalSize (index (snd (evictIfNeeded mem_fs
       \<lparr> index = full_index, initialized = True, world = full_world \<rparr>))))
     \<le> real_of_int MAX_CACHE_SIZE * 0.8"
proof -
  let ?s = "\<lparr> index = full_index, initialized = True, world = full_world \<rparr>"
  let ?ordered = "sort_key (\<lambda>(k, e). entry_timestamp e) (entries (index ?s))"
  have h1: "MAX_CACHE_SIZE < totalSize (index ?s)"
    by (simp add: MAX_CACHE_SIZE_def full_index_def)
  have h2: "\<forall>u w. fst (deleteAsync mem_fs u w) = Return ()"
    by (simp add: mem_fs_def)
  have h3: "totalSize (index ?s) = sum_list (map (\<lambda>(k, e). entry_size e) (entries (index ?s)))"
    by (simp add: full_index_def)
  from evictIfNeeded_evicts_oldest_down_to_target [of ?s mem_fs] h1 h2
  obtain n where n: "evictIfNeeded mem_fs ?s = saveIndex mem_fs (evicted mem_fs (take n ?ordered) ?s)"
      "totalSize (index ?s) = sum_list (map (\<lambda>(k, e). entry_size e) (entries (index ?s))) \<longrightarrow>
         real_of_int (totalSize (index (evicted mem_fs (take n ?ordered) ?s)))
           \<le> real_of_int MAX_CACHE_SIZE * 0.8"
    unfolding Let_def by blast
  have t: "real_of_int (totalSize (index (snd (evictIfNeeded mem_fs ?s))))
             \<le> real_of_int MAX_CACHE_SIZE * 0.8"
    using n(2) h3 by (simp only: n(1) saveIndex_frame(1))
  have ev: "evictIfNeeded mem_fs ?s =
      (Return (),
       \<lparr> index = \<lparr> entries =
           [(''b_2000'', \<lparr> entry_uri = ''cache/aidit/b_2000.jpg'', entry_timestamp = 2000,
                           entry_size = 41943040 \<rparr>),
            (''c_3000'', \<lparr> entry_uri = ''cache/aidit/c_3000.jpg'', entry_timestamp = 3000,
                           entry_size = 41943040 \<rparr>)],
           totalSize = 83886080 \<rparr>,
         initialized = True,
         world = \<lparr> files =
           [(''cache/aidit/b_2000.jpg'', Blob 41943040),
            (''cache/aidit/c_3000.jpg'', Blob 41943040),
            (''cache/aidit/index.json'', Doc (IndexJson \<lparr> entries =
               [(''b_2000'', \<lparr> entry_uri = ''cache/aidit/b_2000.jpg'', entry_timestamp = 2000,
                               entry_size = 41943040 \<rparr>),
                (''c_3000'', \<lparr> entry_uri = ''cache/aidit/c_3000.jpg'', entry_timestamp = 3000,
                               entry_size = 41943040 \<rparr>)],
               totalSize = 83886080 \<rparr>))],
           clock = [4000] \<rparr> \<rparr>)"
    by (simp add: evictIfNeeded_def MAX_CACHE_SIZE_def full_index_def full_world_def
        prog_defs drop_entry_def saveIndex_def indexPath_def CACHE_DIR_def JSON_stringify_def
        mem_defs AList.delete_eq)
  have r: "fst (evictIfNeeded mem_fs ?s) = Return ()"
    "map fst (entries (index (snd (evictIfNeeded mem_fs ?s)))) = [''b_2000'', ''c_3000'']"
    "totalSize (index (snd (evictIfNeeded mem_fs ?s))) = 83886080"
    "map fst (files (world (snd (evictIfNeeded mem_fs ?s))))
       = [''cache/aidit/b_2000.jpg'', ''cache/aidit/c_3000.jpg'', ''cache/aidit/index.json'']"
    by (simp_all add: ev)
  have h3': "totalSize full_index = sum_list (map (\<lambda>(k, e). entry_size e) (entries full_index))"
    by (simp add: full_index_def)
  have h0: "totalSize persisted_index \<le> MAX_CACHE_SIZE"
    by (simp add: persisted_index_def MAX_CACHE_SIZE_def)
  have z: "evictIfNeeded mem_fs \<lparr> index = persisted_index, initialized = True, world = live_world \<rparr>
     = (Return (), \<lparr> index = persisted_index, initialized = True, world = live_world \<rparr>)"
    using evictIfNeeded_evicts_oldest_down_to_target
            [of "\<lparr> index = persisted_index, initialized = True, world = live_world \<rparr>" mem_fs]
      h0
    by simp
  have h1': "MAX_CACHE_SIZE < totalSize full_index"
    using h1 by simp
  show ?thesis
    by (intro conjI h0 z h1' h2 h3' r t)
qed


subsection \<open>initialize and cleanup\<close>

lemma cleanup_loop_run:
  assumes ok: "\<forall>u w. fst (deleteAsync api u w) = Return ()"
  shows "cleanup_loop api nw xs s = (Return (), evicted api (expired nw xs) s)"
proof (induction xs arbitrary: s)
  case Nil
  show ?case by (simp add: ret_def expired_def evicted_Nil)
next
  case (Cons x xs)
  obtain k e where x: "x = (k, e)" by (cases x)
  show ?case
  proof (cases "MAX_CACHE_AGE < nw - entry_timestamp e")
    case False
    then show ?thesis using Cons.IH [of s] by (simp add: x expired_def)
  next
    case True
    define w1 where "w1 = snd (deleteAsync api (entry_uri e) (world s))"
    have d: "deleteAsync api (entry_uri e) (world s) = (Return (), w1)"
      using ok by (metis prod.collapse w1_def)
    have ex: "expired nw (x # xs) = (k, e) # expired nw xs"
      using True by (simp add: x expired_def)
    have "cleanup_loop api nw (x # xs) s
            = cleanup_loop api nw xs (drop_entry k e (s\<lparr> world := w1 \<rparr>))"
      using True d by (simp add: x andThen_def io_def modify_def)
    also have "\<dots> = (Return (), evicted api (expired nw xs) (drop_entry k e (s\<lparr> world := w1 \<rparr>)))"
      by (rule Cons.IH)
    also have "evicted api (expired nw xs) (drop_entry k e (s\<lparr> world := w1 \<rparr>))
                 = evicted api (expired nw (x # xs)) s"
      by (simp add: ex evicted_Cons w1_def)
    finally show ?thesis .
  qed
qed

lemma cleanup_run:
  assumes ok: "\<forall>u w. fst (deleteAsync api u w) = Return ()"
    and dn: "date_now api (world s) = (nw, w)"
  shows "cleanup api s = saveIndex api (evicted api (expired nw (entries (index s))) (s\<lparr> world := w \<rparr>))"
  using dn cleanup_loop_run [OF ok, of nw "entries (index s)" "s\<lparr> world := w \<rparr>"]
  by (simp add: cleanup_def andThen_def now_def)

lemma expired_keys:
  assumes "distinct (map fst es)"
  shows "filter (\<lambda>(k, e). k \<notin> fst ` set (expired nw es)) es
           = filter (\<lambda>(k, e). \<not> MAX_CACHE_AGE < nw - entry_timestamp e) es"
proof (rule filter_cong [OF refl])
  fix p assume p: "p \<in> set es"
  obtain k e where ke: "p = (k, e)" by (cases p)
  have "k \<in> fst ` set (expired nw es) \<longleftrightarrow> MAX_CACHE_AGE < nw - entry_timestamp e"
  proof
    assume "k \<in> fst ` set (expired nw es)"
    then obtain e' where e': "(k, e') \<in> set es" "MAX_CACHE_AGE < nw - entry_timestamp e'"
      by (auto simp add: expired_def)
    from assms e'(1) p ke have "e' = e"
      by (metis eq_key_imp_eq_value)
    with e'(2) show "MAX_CACHE_AGE < nw - entry_timestamp e" by simp
  next
    assume "MAX_CACHE_AGE < nw - entry_timestamp e"
    with p ke have "(k, e) \<in> set (expired nw es)" by (simp add: expired_def)
    then show "k \<in> fst ` set (expired nw es)" by force
  qed
  then show "(case p of (k, e) \<Rightarrow> k \<notin> fst ` set (expired nw es))
              = (case p of (k, e) \<Rightarrow> \<not> MAX_CACHE_AGE < nw - entry_timestamp e)"
    by (simp add: ke)
qed

text \<open>
  C7. initialize never throws, whatever the environment does, and leaves the cache
  initialized. On a new cache: when the index file is reported absent the index stays
  empty; when its text cannot be parsed the SyntaxError is caught and the index is
  empty; when the text parses, the loaded index is installed and cleanup runs on it
  (inside the same try block). What that run of cleanup does, in an environment whose
  deleteAsync does not throw: it reads the clock, deletes the file of every entry of
  the loaded index whose age exceeds MAX_CACHE_AGE, removes these entries and takes
  their sizes off totalSize, keeps every other entry in place, and writes the index;
  if that write throws, the exception is caught and the index is empty.
\<close>

theorem initialize_never_throws_and_recovers:
  "(\<forall>s. fst (initialize api s) = Return () \<and> initialized (snd (initialize api s))) \<and>
   (\<forall>w1 w2 w3 info.
      makeDirectoryAsync api (CACHE_DIR api) w = (Return (), w1) \<and>
      makeDirectoryAsync api (EDITS_DIR api) w1 = (Return (), w2) \<and>
      getInfoAsync api (indexPath api) w2 = (Return info, w3) \<longrightarrow>
        (\<not> info_exists info \<longrightarrow>
           index (snd (initialize api (new_ImageCache w))) = empty_index) \<and>
        (\<forall>doc w4.
           info_exists info \<and>
           readAsStringAsync api (indexPath api) w3 = (Return doc, w4) \<longrightarrow>
             (\<forall>e. JSON_parse doc = Throw e \<longrightarrow>
                initialize api (new_ImageCache w) =
                  (Return (), \<lparr> index = empty_index, initialized = True, world = w4 \<rparr>)) \<and>
             (\<forall>i. JSON_parse doc = Return i \<longrightarrow>
                initialize api (new_ImageCache w) =
                  tryCatch (cleanup api)
                    (\<lambda>error. modify (\<lambda>s1. s1\<lparr> index := empty_index, initialized := True \<rparr>))
                    \<lparr> index = i, initialized = True, world = w4 \<rparr> \<and>
                ((\<forall>u w'. fst (deleteAsync api u w') = Return ()) \<longrightarrow>
                   (case date_now api w4 of
                      (nw, w5) \<Rightarrow>
                        (let s5 = evicted api (expired nw (entries i))
                                    \<lparr> index = i, initialized = True, world = w5 \<rparr>
                         in (case writeAsStringAsync api (indexPath api)
                                    (JSON_stringify (index s5)) (world s5) of
                               (r, w6) \<Rightarrow>
                                 initialize api (new_ImageCache w) =
                                   (Return (),
                                    (case r of
                                       Throw e \<Rightarrow>
                                         \<lparr> index = empty_index, initialized = True, world = w6 \<rparr>
                                     | Return u \<Rightarrow> s5\<lparr> world := w6 \<rparr>)) \<and>
                                 totalSize (index s5) =
                                   totalSize i - sum_list (map (\<lambda>(k, e). entry_size e)
                                                    (expired nw (entries i))) \<and>
                                 (distinct (map fst (entries i)) \<longrightarrow>
                                    entries (index s5) =
                                      filter (\<lambda>(k, e). \<not> MAX_CACHE_AGE < nw - entry_timestamp e)
                                        (entries i)))))))))"
proof (intro conjI allI impI)
  fix s :: "'a ImageCache"
  from initialize_returns [of api s]
  show "fst (initialize api s) = Return ()" "initialized (snd (initialize api s))"
    by auto
next
  fix w1 w2 w3 info
  assume p: "makeDirectoryAsync api (CACHE_DIR api) w = (Return (), w1) \<and>
      makeDirectoryAsync api (EDITS_DIR api) w1 = (Return (), w2) \<and>
      getInfoAsync api (indexPath api) w2 = (Return info, w3)"
  assume a: "\<not> info_exists info"
  have "initialize api (new_ImageCache w) =
          tryCatch (cleanup api)
            (\<lambda>error. modify (\<lambda>s1. s1\<lparr> index := empty_index, initialized := True \<rparr>))
            \<lparr> index = empty_index, initialized = True, world = w3 \<rparr>"
    using p a
    by (simp add: initialize_def new_ImageCache_def andThen_def io_def tryCatch_def
        ret_def modify_def)
  then show "index (snd (initialize api (new_ImageCache w))) = empty_index"
    by (simp add: guarded_cleanup_empty)
next
  fix w1 w2 w3 info doc w4 e
  assume p: "makeDirectoryAsync api (CACHE_DIR api) w = (Return (), w1) \<and>
      makeDirectoryAsync api (EDITS_DIR api) w1 = (Return (), w2) \<and>
      getInfoAsync api (indexPath api) w2 = (Return info, w3)"
  assume r: "info_exists info \<and> readAsStringAsync api (indexPath api) w3 = (Return doc, w4)"
  assume "JSON_parse doc = Throw e"
  with p r show "initialize api (new_ImageCache w) =
      (Return (), \<lparr> index = empty_index, initialized = True, world = w4 \<rparr>)"
    by (simp add: initialize_def new_ImageCache_def andThen_def io_def tryCatch_def
        modify_def)
next
  fix w1 w2 w3 info doc w4 i
  assume p: "makeDirectoryAsync api (CACHE_DIR api) w = (Return (), w1) \<and>
      makeDirectoryAsync api (EDITS_DIR api) w1 = (Return (), w2) \<and>
      getInfoAsync api (indexPath api) w2 = (Return info, w3)"
  assume r: "info_exists info \<and> readAsStringAsync api (indexPath api) w3 = (Return doc, w4)"
  assume "JSON_parse doc = Return i"
  with p r show "initialize api (new_ImageCache w) =
      tryCatch (cleanup api)
        (\<lambda>error. modify (\<lambda>s1. s1\<lparr> index := empty_index, initialized := True \<rparr>))
        \<lparr> index = i, initialized = True, world = w4 \<rparr>"
    by (simp add: initialize_def new_ImageCache_def andThen_def io_def tryCatch_def
        modify_def)
next
  fix w1 w2 w3 info doc w4 i
  assume p: "makeDirectoryAsync api (CACHE_DIR api) w = (Return (), w1) \<and>
      makeDirectoryAsync api (EDITS_DIR api) w1 = (Return (), w2) \<and>
      getInfoAsync api (indexPath api) w2 = (Return info, w3)"
  assume r: "info_exists info \<and> readAsStringAsync api (indexPath api) w3 = (Return doc, w4)"
  assume j: "JSON_parse doc = Return i"
  assume ok: "\<forall>u w'. fst (deleteAsync api u w') = Return ()"
  obtain nw w5 where dn: "date_now api w4 = (nw, w5)"
    by (cases "date_now api w4")
  define s5 where "s5 = evicted api (expired nw (entries i))
                          \<lparr> index = i, initialized = True, world = w5 \<rparr>"
  obtain r6 w6 where wr:
    "writeAsStringAsync api (indexPath api) (JSON_stringify (index s5)) (world s5) = (r6, w6)"
    by (cases "writeAsStringAsync api (indexPath api) (JSON_stringify (index s5)) (world s5)")
  have ini: "initialized s5"
    by (simp add: s5_def evicted_def)
  have init: "initialize api (new_ImageCache w) =
      tryCatch (cleanup api)
        (\<lambda>error. modify (\<lambda>s1. s1\<lparr> index := empty_index, initialized := True \<rparr>))
        \<lparr> index = i, initialized = True, world = w4 \<rparr>"
    using p r j
    by (simp add: initialize_def new_ImageCache_def andThen_def io_def tryCatch_def
        modify_def)
  have cl: "cleanup api \<lparr> index = i, initialized = True, world = w4 \<rparr> = saveIndex api s5"
    using cleanup_run [OF ok, of "\<lparr> index = i, initialized = True, world = w4 \<rparr>" nw w5] dn
    by (simp add: s5_def)
  have sv: "saveIndex api s5 = (r6, s5\<lparr> world := w6 \<rparr>)"
    using wr by (simp add: saveIndex_def io_def)
  have 1: "initialize api (new_ImageCache w) =
             (Return (),
              (case r6 of
                 Throw e \<Rightarrow> \<lparr> index = empty_index, initialized = True, world = w6 \<rparr>
               | Return u \<Rightarrow> s5\<lparr> world := w6 \<rparr>))"
    using ini by (cases r6) (simp_all add: init cl sv tryCatch_def modify_def)
  have 2: "totalSize (index s5) =
             totalSize i - sum_list (map (\<lambda>(k, e). entry_size e) (expired nw (entries i)))"
    by (simp add: s5_def evicted_def)
  have 3: "distinct (map fst (entries i)) \<longrightarrow>
             entries (index s5) =
               filter (\<lambda>(k, e). \<not> MAX_CACHE_AGE < nw - entry_timestamp e) (entries i)"
    by (simp add: s5_def evicted_def expired_keys)
  from 1 2 3 dn wr
  show "case date_now api w4 of
          (nw, w5) \<Rightarrow>
            (let s5 = evicted api (expired nw (entries i))
                        \<lparr> index = i, initialized = True, world = w5 \<rparr>
             in (case writeAsStringAsync api (indexPath api)
                        (JSON_stringify (index s5)) (world s5) of
                   (r, w6) \<Rightarrow>
                     initialize api (new_ImageCache w) =
                       (Return (),
                        (case r of
                           Throw e \<Rightarrow>
                             \<lparr> index = empty_index, initialized = True, world = w6 \<rparr>
                         | Return u \<Rightarrow> s5\<lparr> world := w6 \<rparr>)) \<and>
                     totalSize (index s5) =
                       totalSize i - sum_list (map (\<lambda>(k, e). entry_size e)
                                        (expired nw (entries i))) \<and>
                     (distinct (map fst (entries i)) \<longrightarrow>
                        entries (index s5) =
                          filter (\<lambda>(k, e). \<not> MAX_CACHE_AGE < nw - entry_timestamp e)
                            (entries i))))"
    unfolding Let_def s5_def by simp
qed

theorem initialize_never_throws_and_recovers_witness:
  "getInfoAsync mem_fs (indexPath mem_fs) corrupt_world
     = (Return \<lparr> info_exists = True, info_size = Some 0 \<rparr>, corrupt_world) \<and>
   readAsStringAsync mem_fs (indexPath mem_fs) corrupt_world
     = (Return Unparseable, corrupt_world) \<and>
   JSON_parse Unparseable = Throw SyntaxError \<and>
   initialize mem_fs (new_ImageCache corrupt_world)
     = (Return (), \<lparr> index = empty_index, initialized = True, world = corrupt_world \<rparr>) \<and>
   getInfoAsync mem_fs (indexPath mem_fs) stale_world
     = (Return \<lparr> info_exists = False, info_size = None \<rparr>, stale_world) \<and>
   fst (initialize mem_fs (new_ImageCache stale_world)) = Return () \<and>
   index (snd (initialize mem_fs (new_ImageCache stale_world))) = empty_index \<and>
   readAsStringAsync mem_fs (indexPath mem_fs) persisted_world
     = (Return (IndexJson persisted_index), persisted_world) \<and>
   initialize mem_fs (new_ImageCache persisted_world)
     = tryCatch (cleanup mem_fs)
         (\<lambda>error. modify (\<lambda>s1. s1\<lparr> index := empty_index, initialized := True \<rparr>))
         \<lparr> index = persisted_index, initialized = True, world = persisted_world \<rparr> \<and>
   (\<forall>u w. fst (deleteAsync mem_fs u w) = Return ()) \<and>
   readAsStringAsync mem_fs (indexPath mem_fs) aged_world
     = (Return (IndexJson aged_index), aged_world) \<and>
   date_now mem_fs aged_world = (700000000, aged_world\<lparr> clock := [] \<rparr>) \<and>
   expired 700000000 (entries aged_index)
     = [(''old_1000'', \<lparr> entry_uri = ''cache/aidit/old_1000.jpg'', entry_timestamp = 1000,
                          entry_size = 30 \<rparr>)] \<and>
   initialize mem_fs (new_ImageCache aged_world)
     = (Return (),
        \<lparr> index = \<lparr> entries =
            [(''new_699999000'', \<lparr> entry_uri = ''cache/aidit/new_699999000.jpg'',
                                   entry_timestamp = 699999000, entry_size = 12 \<rparr>)],
            totalSize = 12 \<rparr>,
          initialized = True,
          world = \<lparr> files =
            [(''cache/aidit/index.json'', Doc (IndexJson \<lparr> entries =
                [(''new_699999000'', \<lparr> entry_uri = ''cache/aidit/new_699999000.jpg'',
                                       entry_timestamp = 699999000, entry_size = 12 \<rparr>)],
                totalSize = 12 \<rparr>)),
             (''cache/aidit/new_699999000.jpg'', Blob 12)],
            clock = [] \<rparr> \<rparr>)"
proof -
  note rec = initialize_never_throws_and_recovers
  have m: "makeDirectoryAsync mem_fs d w = (Return (), w)" for d w
    by (simp add: mem_fs_def)
  have g1: "getInfoAsync mem_fs (indexPath mem_fs) corrupt_world
        = (Return \<lparr> info_exists = True, info_size = Some 0 \<rparr>, corrupt_world)"
    by (simp add: mem_fs_def corrupt_world_def indexPath_def CACHE_DIR_def)
  have r1: "readAsStringAsync mem_fs (indexPath mem_fs) corrupt_world
        = (Return Unparseable, corrupt_world)"
    by (simp add: mem_fs_def corrupt_world_def indexPath_def CACHE_DIR_def)
  have j1: "JSON_parse Unparseable = Throw SyntaxError"
    by simp
  have c1: "initialize mem_fs (new_ImageCache corrupt_world)
     = (Return (), \<lparr> index = empty_index, initialized = True, world = corrupt_world \<rparr>)"
    using rec [of mem_fs corrupt_world] m g1 r1 j1 by simp
  have g2: "getInfoAsync mem_fs (indexPath mem_fs) stale_world
        = (Return \<lparr> info_exists = False, info_size = None \<rparr>, stale_world)"
    by (simp add: mem_fs_def stale_world_def)
  have c2: "fst (initialize mem_fs (new_ImageCache stale_world)) = Return ()"
    using rec [of mem_fs stale_world] by blast
  have c2': "index (snd (initialize mem_fs (new_ImageCache stale_world))) = empty_index"
    using rec [of mem_fs stale_world] m g2 by simp
  have g3: "getInfoAsync mem_fs (indexPath mem_fs) persisted_world
        = (Return \<lparr> info_exists = True, info_size = Some 0 \<rparr>, persisted_world)"
    by (simp add: mem_fs_def persisted_world_def indexPath_def CACHE_DIR_def)
  have r3: "readAsStringAsync mem_fs (indexPath mem_fs) persisted_world
        = (Return (IndexJson persisted_index), persisted_world)"
    by (simp add: mem_fs_def persisted_world_def indexPath_def CACHE_DIR_def)
  have c3: "initialize mem_fs (new_ImageCache persisted_world)
     = tryCatch (cleanup mem_fs)
         (\<lambda>error. modify (\<lambda>s1. s1\<lparr> index := empty_index, initialized := True \<rparr>))
         \<lparr> index = persisted_index, initialized = True, world = persisted_world \<rparr>"
    using rec [of mem_fs persisted_world] m g3 r3 by simp
  have ok: "\<forall>u w. fst (deleteAsync mem_fs u w) = Return ()"
    by (simp add: mem_fs_def)
  have g4: "getInfoAsync mem_fs (indexPath mem_fs) aged_world
        = (Return \<lparr> info_exists = True, info_size = Some 0 \<rparr>, aged_world)"
    by (simp add: mem_fs_def aged_world_def indexPath_def CACHE_DIR_def)
  have r4: "readAsStringAsync mem_fs (indexPath mem_fs) aged_world
        = (Return (IndexJson aged_index), aged_world)"
    by (simp add: mem_fs_def aged_world_def indexPath_def CACHE_DIR_def)
  have d4: "date_now mem_fs aged_world = (700000000, aged_world\<lparr> clock := [] \<rparr>)"
    by (simp add: mem_fs_def aged_world_def)
  have e4: "expired 700000000 (entries aged_index)
     = [(''old_1000'', \<lparr> entry_uri = ''cache/aidit/old_1000.jpg'', entry_timestamp = 1000,
                          entry_size = 30 \<rparr>)]"
    by (simp add: expired_def aged_index_def MAX_CACHE_AGE_def)
  have j4: "JSON_parse (IndexJson aged_index) = Return aged_index"
    by simp
  have ie: "info_exists \<lparr> info_exists = True, info_size = Some 0 \<rparr>"
    by simp
  note step1 = rec [of mem_fs aged_world, THEN conjunct2, rule_format,
      OF conjI [OF m [of "CACHE_DIR mem_fs" aged_world]
                   conjI [OF m [of "EDITS_DIR mem_fs" aged_world] g4]]]
  note step2 = step1 [THEN conjunct2, rule_format, OF conjI [OF ie r4]]
  note step3 = step2 [THEN conjunct2, rule_format, OF j4]
  note step4 = step3 [THEN conjunct2, rule_format, OF ok [rule_format]]
  have "case date_now mem_fs aged_world of
          (nw, w5) \<Rightarrow>
            (let s5 = evicted mem_fs (expired nw (entries aged_index))
                        \<lparr> index = aged_index, initialized = True, world = w5 \<rparr>
             in (case writeAsStringAsync mem_fs (indexPath mem_fs)
                        (JSON_stringify (index s5)) (world s5) of
                   (r, w6) \<Rightarrow>
                     initialize mem_fs (new_ImageCache aged_world) =
                       (Return (),
                        (case r of
                           Throw e \<Rightarrow>
                             \<lparr> index = empty_index, initialized = True, world = w6 \<rparr>
                         | Return u \<Rightarrow> s5\<lparr> world := w6 \<rparr>)) \<and>
                     totalSize (index s5) =
                       totalSize aged_index - sum_list (map (\<lambda>(k, e). entry_size e)
                                        (expired nw (entries aged_index))) \<and>
                     (distinct (map fst (entries aged_index)) \<longrightarrow>
                        entries (index s5) =
                          filter (\<lambda>(k, e). \<not> MAX_CACHE_AGE < nw - entry_timestamp e)
                            (entries aged_index))))"
    by (rule step4)
  note s4 = this
  let ?kept = "[(''new_699999000'', \<lparr> entry_uri = ''cache/aidit/new_699999000.jpg'',
                                     entry_timestamp = 699999000, entry_size = 12 \<rparr>)]"
  let ?w5 = "\<lparr> files = [(''cache/aidit/index.json'', Doc (IndexJson aged_index)),
                        (''cache/aidit/new_699999000.jpg'', Blob 12)],
               clock = [] \<rparr>"
  let ?w6 = "\<lparr> files = [(''cache/aidit/index.json'',
                         Doc (IndexJson \<lparr> entries = ?kept, totalSize = 12 \<rparr>)),
                        (''cache/aidit/new_699999000.jpg'', Blob 12)],
               clock = [] \<rparr>"
  have ev: "evicted mem_fs (expired 700000000 (entries aged_index))
              \<lparr> index = aged_index, initialized = True, world = aged_world\<lparr> clock := [] \<rparr> \<rparr>
            = \<lparr> index = \<lparr> entries = ?kept, totalSize = 12 \<rparr>, initialized = True, world = ?w5 \<rparr>"
    unfolding e4
    by (simp add: evicted_def aged_index_def aged_world_def mem_fs_def under_def)
  have wr: "writeAsStringAsync mem_fs (indexPath mem_fs)
              (JSON_stringify \<lparr> entries = ?kept, totalSize = 12 \<rparr>) ?w5 = (Return (), ?w6)"
    by (simp add: mem_fs_def indexPath_def CACHE_DIR_def JSON_stringify_def)
  from s4 have c4: "initialize mem_fs (new_ImageCache aged_world)
     = (Return (),
        \<lparr> index = \<lparr> entries =
            [(''new_699999000'', \<lparr> entry_uri = ''cache/aidit/new_699999000.jpg'',
                                   entry_timestamp = 699999000, entry_size = 12 \<rparr>)],
            totalSize = 12 \<rparr>,
          initialized = True,
          world = \<lparr> files =
            [(''cache/aidit/index.json'', Doc (IndexJson \<lparr> entries =
                [(''new_699999000'', \<lparr> entry_uri = ''cache/aidit/new_699999000.jpg'',
                                       entry_timestamp = 699999000, entry_size = 12 \<rparr>)],
                totalSize = 12 \<rparr>)),
             (''cache/aidit/new_699999000.jpg'', Blob 12)],
            clock = [] \<rparr> \<rparr>)"
    by (simp add: d4 ev wr Let_def)
  show ?thesis
    by (intro conjI g1 r1 j1 c1 g2 c2 c2' r3 c3 ok r4 d4 e4 c4)
qed


subsection \<open>Where the running sum is maintained\<close>

lemma validI:
  "(\<And>s. P s \<Longrightarrow> (case m s of (Throw e, s') \<Rightarrow> E s' | (Return x, s') \<Rightarrow> Q x s'))
     \<Longrightarrow> valid P m Q E"
  by (simp add: valid_def)

lemma validD:
  "valid P m Q E \<Longrightarrow> P s \<Longrightarrow> (case m s of (Throw e, s') \<Rightarrow> E s' | (Return x, s') \<Rightarrow> Q x s')"
  by (simp add: valid_def)

lemma valid_ret: "(\<And>s. P s \<Longrightarrow> Q x s) \<Longrightarrow> valid P (ret x) Q E"
  by (simp add: valid_def ret_def)

lemma valid_throw: "(\<And>s. P s \<Longrightarrow> E s) \<Longrightarrow> valid P (throw e) Q E"
  by (simp add: valid_def throw_def)

lemma valid_modify: "(\<And>s. P s \<Longrightarrow> Q () (g s)) \<Longrightarrow> valid P (modify g) Q E"
  by (simp add: valid_def modify_def)

lemma valid_andThen:
  assumes "valid P m R E" and "\<And>x. valid (R x) (f x) Q E"
  shows "valid P (andThen m f) Q E"
proof (rule validI)
  fix s assume "P s"
  obtain r s' where m: "m s = (r, s')" by (cases "m s")
  from validD [OF assms(1) \<open>P s\<close>] m
  show "case andThen m f s of (Throw e, s') \<Rightarrow> E s' | (Return x, s') \<Rightarrow> Q x s'"
    using validD [OF assms(2)]
    by (cases r) (simp_all add: andThen_def)
qed

lemma valid_tryCatch:
  assumes "valid P m Q R" and "\<And>e. valid R (h e) Q E"
  shows "valid P (tryCatch m h) Q E"
proof (rule validI)
  fix s assume "P s"
  obtain r s' where m: "m s = (r, s')" by (cases "m s")
  from validD [OF assms(1) \<open>P s\<close>] m
  show "case tryCatch m h s of (Throw e, s') \<Rightarrow> E s' | (Return x, s') \<Rightarrow> Q x s'"
    using validD [OF assms(2)]
    by (cases r) (simp_all add: tryCatch_def)
qed

lemma valid_weaken:
  assumes "valid P' m Q' E'"
    and "\<And>s. P s \<Longrightarrow> P' s" and "\<And>x s. Q' x s \<Longrightarrow> Q x s" and "\<And>s. E' s \<Longrightarrow> E s"
  shows "valid P m Q E"
proof (rule validI)
  fix s assume "P s"
  then have "P' s" by (rule assms(2))
  from validD [OF assms(1) this]
  show "case m s of (Throw e, s') \<Rightarrow> E s' | (Return x, s') \<Rightarrow> Q x s'"
    using assms(3,4) by (auto split: prod.splits outcome.splits)
qed

lemma valid_state:
  assumes "\<And>s0. P s0 \<Longrightarrow> valid (\<lambda>s. s = s0) (m s0) Q E"
  shows "valid P (\<lambda>s. m s s) Q E"
proof (rule validI)
  fix s assume "P s"
  from validD [OF assms [OF this], of s]
  show "case m s s of (Throw e, s') \<Rightarrow> E s' | (Return x, s') \<Rightarrow> Q x s'"
    by simp
qed

text \<open>A property of the index alone is not affected by the environment.\<close>

lemma valid_io: "valid (\<lambda>s. I (index s)) (io f) (\<lambda>x s. I (index s)) (\<lambda>s. I (index s))"
  by (rule validI) (simp add: io_def split: prod.splits outcome.splits)

lemma valid_now: "valid (\<lambda>s. I (index s)) (now api) (\<lambda>x s. I (index s)) (\<lambda>s. I (index s))"
  by (rule validI) (simp add: now_def split: prod.splits)

lemma valid_saveIndex:
  "valid (\<lambda>s. I (index s)) (saveIndex api) (\<lambda>x s. I (index s)) (\<lambda>s. I (index s))"
  by (rule validI) (simp add: saveIndex_def io_def split: prod.splits outcome.splits)

lemma sum_list_delete_key:
  "distinct (map fst es) \<Longrightarrow> (k, e) \<in> set es \<Longrightarrow>
     sum_list (map (\<lambda>(k, e). entry_size e) (AList.delete k es))
       = sum_list (map (\<lambda>(k, e). entry_size e) es) - entry_size e"
proof (induction es)
  case Nil
  then show ?case by simp
next
  case (Cons x es)
  obtain k' e' where x: "x = (k', e')" by (cases x)
  show ?case
  proof (cases "k' = k")
    case True
    with Cons.prems x have n: "k \<notin> fst ` set es" by auto
    then have "(k, e) \<notin> set es" by force
    with Cons.prems(2) x True have "e' = e" by simp
    moreover from n have "AList.delete k es = es" by (simp add: delete_id)
    ultimately show ?thesis using True x by (simp add: AList.delete_eq)
  next
    case False
    with Cons x show ?thesis by (simp add: AList.delete_eq)
  qed
qed

lemma index_ok_remove:
  assumes "index_ok idx" and "(k, e) \<in> set (entries idx)"
  shows "index_ok \<lparr> entries = AList.delete k (entries idx),
                    totalSize = totalSize idx - entry_size e \<rparr>"
  using assms
  by (simp add: index_ok_def sum_list_delete_key distinct_delete)

lemma index_ok_empty: "index_ok empty_index"
  by (simp add: index_ok_def empty_index_def)


lemma pending_drop_entry:
  assumes "pending ((k, e) # xs) (index s)"
  shows "pending xs (index (drop_entry k e s))"
proof -
  from assms have ok: "index_ok (index s)" and mem: "(k, e) \<in> set (entries (index s))"
    and sub: "set xs \<subseteq> set (entries (index s))" and d: "k \<notin> fst ` set xs" "distinct (map fst xs)"
    by (auto simp add: pending_def)
  have "set xs \<subseteq> set (AList.delete k (entries (index s)))"
    using sub d(1) by (force simp add: AList.delete_eq)
  with index_ok_remove [OF ok mem] d(2) show ?thesis
    by (simp add: pending_def drop_entry_def)
qed

lemma valid_drop_step:
  assumes "valid (\<lambda>s. pending xs (index s)) m (\<lambda>x s. index_ok (index s)) (\<lambda>s. index_ok (index s))"
  shows "valid (\<lambda>s. pending ((k, e) # xs) (index s))
           (andThen (io (deleteAsync api (entry_uri e))) (\<lambda>_.
            andThen (modify (drop_entry k e)) (\<lambda>_. m)))
           (\<lambda>x s. index_ok (index s)) (\<lambda>s. index_ok (index s))"
proof (rule valid_andThen)
  show "valid (\<lambda>s. pending ((k, e) # xs) (index s)) (io (deleteAsync api (entry_uri e)))
          (\<lambda>x s. pending ((k, e) # xs) (index s)) (\<lambda>s. index_ok (index s))"
    by (rule valid_weaken [OF valid_io [of "pending ((k, e) # xs)"]])
       (simp_all add: pending_def)
next
  fix x :: unit
  show "valid (\<lambda>s. pending ((k, e) # xs) (index s))
          (andThen (modify (drop_entry k e)) (\<lambda>_. m))
          (\<lambda>x s. index_ok (index s)) (\<lambda>s. index_ok (index s))"
  proof (rule valid_andThen)
    show "valid (\<lambda>s. pending ((k, e) # xs) (index s)) (modify (drop_entry k e))
            (\<lambda>x s. pending xs (index s)) (\<lambda>s. index_ok (index s))"
      by (rule valid_modify) (rule pending_drop_entry)
  next
    fix y :: unit
    show "valid (\<lambda>s. pending xs (index s)) m (\<lambda>x s. index_ok (index s)) (\<lambda>s. index_ok (index s))"
      by (rule assms)
  qed
qed

lemma pending_tail: "pending (x # xs) idx \<Longrightarrow> pending xs idx"
  by (simp add: pending_def)

lemma valid_cleanup_loop:
  "valid (\<lambda>s. pending xs (index s)) (cleanup_loop api nw xs)
     (\<lambda>x s. index_ok (index s)) (\<lambda>s. index_ok (index s))"
proof (induction xs)
  case Nil
  show ?case by (simp add: valid_def ret_def pending_def)
next
  case (Cons x xs)
  obtain k e where x: "x = (k, e)" by (cases x)
  show ?case
  proof (cases "nw - entry_timestamp e > MAX_CACHE_AGE")
    case True
    then show ?thesis using valid_drop_step [OF Cons.IH, of k e api] by (simp add: x)
  next
    case False
    then show ?thesis
      using valid_weaken [OF Cons.IH, of "\<lambda>s. pending (x # xs) (index s)"
          "\<lambda>x s. index_ok (index s)" "\<lambda>s. index_ok (index s)"] pending_tail
      by (simp add: x)
  qed
qed

lemma valid_evict_loop:
  "valid (\<lambda>s. pending xs (index s)) (evict_loop api xs)
     (\<lambda>x s. index_ok (index s)) (\<lambda>s. index_ok (index s))"
proof (induction xs)
  case Nil
  show ?case by (simp add: valid_def ret_def pending_def)
next
  case (Cons x xs)
  obtain k e where x: "x = (k, e)" by (cases x)
  show ?case
  proof (rule validI)
    fix s :: "'a ImageCache"
    assume p: "pending (x # xs) (index s)"
    show "case evict_loop api (x # xs) s of
            (Throw e, s') \<Rightarrow> index_ok (index s') | (Return y, s') \<Rightarrow> index_ok (index s')"
    proof (cases "real_of_int (totalSize (index s)) \<le> real_of_int MAX_CACHE_SIZE * 0.8")
      case True
      with p show ?thesis by (simp add: x pending_def)
    next
      case False
      with validD [OF valid_drop_step [OF Cons.IH, of k e api], of s] p
      show ?thesis by (simp add: x)
    qed
  qed
qed

lemma pending_snapshot: "index_ok idx \<Longrightarrow> pending (entries idx) idx"
  by (simp add: pending_def index_ok_def)

lemma distinct_map_insort_key:
  "distinct (map g (insort_key f x xs)) \<longleftrightarrow> g x \<notin> g ` set xs \<and> distinct (map g xs)"
  by (induction xs) (auto simp add: set_insort_key)

lemma distinct_map_sort_key:
  "distinct (map g (sort_key f xs)) \<longleftrightarrow> distinct (map g xs)"
  by (induction xs) (simp_all add: distinct_map_insort_key)

lemma pending_sorted:
  "index_ok idx \<Longrightarrow> pending (sort_key f (entries idx)) idx"
  by (simp add: pending_def index_ok_def distinct_map_sort_key)

lemma valid_cleanup:
  "valid (\<lambda>s. index_ok (index s)) (cleanup api)
     (\<lambda>x s. index_ok (index s)) (\<lambda>s. index_ok (index s))"
  unfolding cleanup_def
proof (rule valid_andThen [OF valid_now])
  fix nw
  show "valid (\<lambda>s. index_ok (index s))
          (\<lambda>s. andThen (cleanup_loop api nw (entries (index s))) (\<lambda>_. saveIndex api) s)
          (\<lambda>x s. index_ok (index s)) (\<lambda>s. index_ok (index s))"
  proof (rule valid_state [where m = "\<lambda>s0. andThen (cleanup_loop api nw (entries (index s0)))
                                             (\<lambda>_. saveIndex api)"])
    fix s0 :: "'a ImageCache"
    assume ok: "index_ok (index s0)"
    show "valid (\<lambda>s. s = s0)
            (andThen (cleanup_loop api nw (entries (index s0))) (\<lambda>_. saveIndex api))
            (\<lambda>x s. index_ok (index s)) (\<lambda>s. index_ok (index s))"
    proof (rule valid_andThen)
      show "valid (\<lambda>s. s = s0) (cleanup_loop api nw (entries (index s0)))
              (\<lambda>x s. index_ok (index s)) (\<lambda>s. index_ok (index s))"
        by (rule valid_weaken [OF valid_cleanup_loop]) (simp_all add: pending_snapshot ok)
    next
      fix x :: unit
      show "valid (\<lambda>s. index_ok (index s)) (saveIndex api)
              (\<lambda>x s. index_ok (index s)) (\<lambda>s. index_ok (index s))"
        by (rule valid_saveIndex)
    qed
  qed
qed

lemma valid_evictIfNeeded:
  "valid (\<lambda>s. index_ok (index s)) (evictIfNeeded api)
     (\<lambda>x s. index_ok (index s)) (\<lambda>s. index_ok (index s))"
proof (rule validI)
  fix s :: "'a ImageCache"
  assume ok: "index_ok (index s)"
  show "case evictIfNeeded api s of
          (Throw e, s') \<Rightarrow> index_ok (index s') | (Return x, s') \<Rightarrow> index_ok (index s')"
  proof (cases "totalSize (index s) \<le> MAX_CACHE_SIZE")
    case True
    with ok show ?thesis by (simp add: evictIfNeeded_def)
  next
    case False
    have "valid (\<lambda>s'. s' = s)
            (andThen (evict_loop api (sort_key (\<lambda>(k, e). entry_timestamp e) (entries (index s))))
               (\<lambda>_. saveIndex api))
            (\<lambda>x s. index_ok (index s)) (\<lambda>s. index_ok (index s))"
    proof (rule valid_andThen)
      show "valid (\<lambda>s'. s' = s)
              (evict_loop api (sort_key (\<lambda>(k, e). entry_timestamp e) (entries (index s))))
              (\<lambda>x s. index_ok (index s)) (\<lambda>s. index_ok (index s))"
        by (rule valid_weaken [OF valid_evict_loop]) (simp_all add: pending_sorted ok)
    next
      fix x :: unit
      show "valid (\<lambda>s. index_ok (index s)) (saveIndex api)
              (\<lambda>x s. index_ok (index s)) (\<lambda>s. index_ok (index s))"
        by (rule valid_saveIndex)
    qed
    from validD [OF this, of s] False show ?thesis
      by (simp add: evictIfNeeded_def)
  qed
qed


lemma valid_post_True: "valid P m Q (\<lambda>s. True) \<longleftrightarrow> (\<forall>s x s'. P s \<longrightarrow> m s = (Return x, s') \<longrightarrow> Q x s')"
  by (auto simp add: valid_def split: prod.splits outcome.splits)

lemma valid_load:
  assumes "persisted_ok api"
  shows "valid (\<lambda>s. index_ok (index s))
           (andThen (io (readAsStringAsync api (indexPath api))) (\<lambda>indexData s1.
              (case JSON_parse indexData of
                 Throw e \<Rightarrow> (Throw e, s1)
               | Return i \<Rightarrow> (Return (), s1\<lparr> index := i \<rparr>))))
           (\<lambda>x s. index_ok (index s)) (\<lambda>s. True)"
  unfolding valid_post_True
proof (intro allI impI)
  fix s :: "'a ImageCache" and x :: unit and s'
  assume "index_ok (index s)"
  assume r: "andThen (io (readAsStringAsync api (indexPath api))) (\<lambda>indexData s1.
              (case JSON_parse indexData of
                 Throw e \<Rightarrow> (Throw e, s1)
               | Return i \<Rightarrow> (Return (), s1\<lparr> index := i \<rparr>))) s = (Return x, s')"
  obtain r0 w where rd: "readAsStringAsync api (indexPath api) (world s) = (r0, w)"
    by (cases "readAsStringAsync api (indexPath api) (world s)")
  from r rd obtain doc where doc: "r0 = Return doc"
    by (cases r0) (simp_all add: andThen_def io_def)
  from r rd doc obtain i where i: "JSON_parse doc = Return i" "s' = s\<lparr> world := w, index := i \<rparr>"
    by (cases "JSON_parse doc") (auto simp add: andThen_def io_def)
  from assms rd doc i(1) have "index_ok i"
    unfolding persisted_ok_def by blast
  with i(2) show "index_ok (index s')" by simp
qed

lemma valid_io_weak:
  "valid (\<lambda>s. I (index s)) (io f) (\<lambda>x s. I (index s)) (\<lambda>s. True)"
  by (rule valid_weaken [OF valid_io [of I]]) simp_all

lemma valid_initialize:
  assumes "persisted_ok api"
  shows "valid (\<lambda>s. index_ok (index s)) (initialize api)
           (\<lambda>x s. index_ok (index s)) (\<lambda>s. index_ok (index s))"
proof (rule validI)
  fix s :: "'a ImageCache"
  assume ok: "index_ok (index s)"
  let ?handler = "\<lambda>error :: js_error. modify (\<lambda>s1 :: 'a ImageCache.
                     s1\<lparr> index := empty_index, initialized := True \<rparr>)"
  let ?body = "andThen (io (makeDirectoryAsync api (CACHE_DIR api))) (\<lambda>_.
           andThen (io (makeDirectoryAsync api (EDITS_DIR api))) (\<lambda>_.
           andThen (io (getInfoAsync api (indexPath api))) (\<lambda>indexInfo.
           andThen
             (if info_exists indexInfo
              then andThen (io (readAsStringAsync api (indexPath api))) (\<lambda>indexData s1.
                     (case JSON_parse indexData of
                        Throw e \<Rightarrow> (Throw e, s1)
                      | Return i \<Rightarrow> (Return (), s1\<lparr> index := i \<rparr>)))
              else ret ()) (\<lambda>_.
           andThen (modify (\<lambda>s1. s1\<lparr> initialized := True \<rparr>)) (\<lambda>_.
           cleanup api)))))"
  have load: "valid (\<lambda>s. index_ok (index s))
           (if info_exists indexInfo
              then andThen (io (readAsStringAsync api (indexPath api))) (\<lambda>indexData s1.
                     (case JSON_parse indexData of
                        Throw e \<Rightarrow> (Throw e, s1)
                      | Return i \<Rightarrow> (Return (), s1\<lparr> index := i \<rparr>)))
              else ret ())
           (\<lambda>x s. index_ok (index s)) (\<lambda>s. True)" for indexInfo
    using valid_load [OF assms] by (simp add: valid_ret)
  have tail: "valid (\<lambda>s. index_ok (index s))
           (andThen (modify (\<lambda>s1. s1\<lparr> initialized := True \<rparr>)) (\<lambda>_. cleanup api))
           (\<lambda>x s. index_ok (index s)) (\<lambda>s. True)"
    by (rule valid_andThen [where R = "\<lambda>x s. index_ok (index s)"])
       (simp add: valid_modify, rule valid_weaken [OF valid_cleanup], simp_all)
  have body: "valid (\<lambda>s. index_ok (index s)) ?body (\<lambda>x s. index_ok (index s)) (\<lambda>s. True)"
    by (intro valid_andThen [where R = "\<lambda>x s. index_ok (index s)"] valid_io_weak load tail)
  have h: "valid (\<lambda>s. True) (?handler e) (\<lambda>x s. index_ok (index s)) (\<lambda>s. index_ok (index s))"
    for e
    by (rule valid_modify) (simp add: index_ok_empty)
  have "valid (\<lambda>s. index_ok (index s)) (tryCatch ?body ?handler)
          (\<lambda>x s. index_ok (index s)) (\<lambda>s. index_ok (index s))"
    by (rule valid_tryCatch [OF body h])
  from validD [OF this ok] ok
  show "case initialize api s of
          (Throw e, s') \<Rightarrow> index_ok (index s') | (Return x, s') \<Rightarrow> index_ok (index s')"
    by (simp add: initialize_def)
qed


lemma update_fresh_key: "k \<notin> fst ` set es \<Longrightarrow> AList.update k v es = es @ [(k, v)]"
  by (induction es) auto

lemma index_ok_insert:
  assumes "index_ok idx" and "k \<notin> fst ` set (entries idx)"
  shows "index_ok \<lparr> entries = AList.update k v (entries idx),
                    totalSize = totalSize idx + entry_size v \<rparr>"
  using assms by (simp add: index_ok_def update_fresh_key)

lemma sum_list_update_same_size:
  "map_of es k = Some e \<Longrightarrow> entry_size v = entry_size e \<Longrightarrow>
     sum_list (map (\<lambda>(k, e). entry_size e) (AList.update k v es))
       = sum_list (map (\<lambda>(k, e). entry_size e) es)"
  by (induction es) (auto split: if_splits)

lemma index_ok_touch:
  assumes "index_ok idx" and "map_of (entries idx) k = Some e"
  shows "index_ok (idx\<lparr> entries := AList.update k (e\<lparr> entry_timestamp := t \<rparr>) (entries idx) \<rparr>)"
  using assms by (simp add: index_ok_def sum_list_update_same_size distinct_update)

lemma generateKey_Return: "\<exists>key. fst (generateKey api sourceUri operation s) = Return key"
  by (simp add: generateKey_def Let_def andThen_def now_def ret_def split: prod.splits)

text \<open>
  cacheImage maintains the invariant when the key it generates is not a key of the
  index.
\<close>

lemma cacheImage_keeps_index_ok:
  assumes ok: "index_ok (index s)" and env: "persisted_ok api"
    and fresh: "\<And>key s2. generateKey api sourceUri operation (snd (initialize api s))
                   = (Return key, s2) \<Longrightarrow>
                 key \<notin> fst ` set (entries (index (snd (initialize api s))))"
  shows "index_ok (index (snd (cacheImage api sourceUri operation s)))"
proof -
  from initialize_returns [of api s] obtain s1 where s1: "initialize api s = (Return (), s1)"
    by blast
  from validD [OF valid_initialize [OF env] ok] s1 have ok1: "index_ok (index s1)" by simp
  obtain r s2 where g: "generateKey api sourceUri operation s1 = (r, s2)"
    by (cases "generateKey api sourceUri operation s1")
  with generateKey_Return [of api sourceUri operation s1] obtain key where r: "r = Return key"
    by auto
  have i2: "index s2 = index s1"
    using generateKey_frame(1) [of api sourceUri operation s1] g by simp
  from fresh [of key s2] s1 g r have fr: "key \<notin> fst ` set (entries (index s2))"
    by (simp add: i2)
  let ?I' = "\<lambda>idx. index_ok idx \<and> key \<notin> fst ` set (entries idx)"
  let ?dest = "CACHE_DIR api @ key @ ''.'' @ file_extension sourceUri"
  let ?inner = "andThen (io (copyAsync api sourceUri ?dest)) (\<lambda>_.
             andThen (io (getInfoAsync api ?dest)) (\<lambda>info.
               andThen (now api) (\<lambda>t.
                  andThen (modify (\<lambda>s.
                     s\<lparr> index :=
                          \<lparr> entries = AList.update key
                                \<lparr> entry_uri = ?dest, entry_timestamp = t,
                                  entry_size = (if info_exists info
                                     then (case info_size info of Some n \<Rightarrow> n | None \<Rightarrow> 0)
                                     else 0) \<rparr>
                                (entries (index s)),
                            totalSize = totalSize (index s)
                              + (if info_exists info
                                 then (case info_size info of Some n \<Rightarrow> n | None \<Rightarrow> 0)
                                 else 0) \<rparr> \<rparr>)) (\<lambda>_.
                  andThen (saveIndex api) (\<lambda>_.
                  andThen (evictIfNeeded api) (\<lambda>_.
                  ret ?dest))))))"
  have step_io: "valid (\<lambda>s. ?I' (index s)) (io f) (\<lambda>x s. ?I' (index s)) (\<lambda>s. index_ok (index s))"
    for f :: "'a \<Rightarrow> 'b outcome \<times> 'a"
    by (rule valid_weaken [OF valid_io [of ?I']]) simp_all
  have step_now: "valid (\<lambda>s. ?I' (index s)) (now api) (\<lambda>x s. ?I' (index s))
                    (\<lambda>s. index_ok (index s))"
    by (rule valid_weaken [OF valid_now [of ?I']]) simp_all
  have rest: "valid (\<lambda>s. index_ok (index s))
                (andThen (saveIndex api) (\<lambda>_. andThen (evictIfNeeded api) (\<lambda>_. ret ?dest)))
                (\<lambda>x s. index_ok (index s)) (\<lambda>s. index_ok (index s))"
    by (intro valid_andThen [where R = "\<lambda>x s. index_ok (index s)"] valid_saveIndex
        valid_evictIfNeeded valid_ret)
  have upd: "valid (\<lambda>s. ?I' (index s))
       (andThen (modify (\<lambda>s.
                     s\<lparr> index :=
                          \<lparr> entries = AList.update key v (entries (index s)),
                            totalSize = totalSize (index s) + entry_size v \<rparr> \<rparr>)) (\<lambda>_.
          andThen (saveIndex api) (\<lambda>_. andThen (evictIfNeeded api) (\<lambda>_. ret ?dest))))
       (\<lambda>x s. index_ok (index s)) (\<lambda>s. index_ok (index s))" for v
  proof (rule valid_andThen [where R = "\<lambda>x s. index_ok (index s)"])
    show "valid (\<lambda>s. ?I' (index s))
            (modify (\<lambda>s. s\<lparr> index :=
                          \<lparr> entries = AList.update key v (entries (index s)),
                            totalSize = totalSize (index s) + entry_size v \<rparr> \<rparr>))
            (\<lambda>x s. index_ok (index s)) (\<lambda>s. index_ok (index s))"
      by (rule valid_modify) (simp add: index_ok_insert)
  next
    fix x :: unit
    show "valid (\<lambda>s. index_ok (index s))
            (andThen (saveIndex api) (\<lambda>_. andThen (evictIfNeeded api) (\<lambda>_. ret ?dest)))
            (\<lambda>x s. index_ok (index s)) (\<lambda>s. index_ok (index s))"
      by (rule rest)
  qed
  have inner: "valid (\<lambda>s. ?I' (index s)) ?inner (\<lambda>x s. index_ok (index s)) (\<lambda>s. index_ok (index s))"
    apply (rule valid_andThen [OF step_io])
    apply (rule valid_andThen [OF step_io])
    apply (rule valid_andThen [OF step_now])
    subgoal for x info t
      using upd [of "\<lparr> entry_uri = ?dest, entry_timestamp = t,
                       entry_size = (if info_exists info
                                     then (case info_size info of Some n \<Rightarrow> n | None \<Rightarrow> 0)
                                     else 0) \<rparr>"]
      by simp
    done
  have "valid (\<lambda>s. ?I' (index s))
          (tryCatch ?inner (\<lambda>error. throw (Error (''Failed to cache image: '' @ error_text error))))
          (\<lambda>x s. index_ok (index s)) (\<lambda>s. index_ok (index s))"
    by (rule valid_tryCatch [OF inner]) (simp add: valid_throw)
  from validD [OF this, of s2] ok1 i2 fr
  have "index_ok (index (snd (tryCatch ?inner
          (\<lambda>error. throw (Error (''Failed to cache image: '' @ error_text error))) s2)))"
    by (auto split: prod.splits outcome.splits)
  moreover have "cacheImage api sourceUri operation s =
      tryCatch ?inner (\<lambda>error. throw (Error (''Failed to cache image: '' @ error_text error))) s2"
    using s1 g r by (simp add: cacheImage_def andThen_def Let_def)
  ultimately show ?thesis by simp
qed


lemma valid_getCached:
  assumes env: "persisted_ok api"
  shows "valid (\<lambda>s. index_ok (index s)) (getCached api key)
           (\<lambda>x s. index_ok (index s)) (\<lambda>s. index_ok (index s))"
  unfolding getCached_def
proof (rule valid_andThen [OF valid_initialize [OF env]])
  fix u :: unit
  show "valid (\<lambda>s. index_ok (index s))
     (\<lambda>s. case map_of (entries (index s)) key of
          None \<Rightarrow> (Return None, s)
        | Some entry \<Rightarrow>
            andThen (io (getInfoAsync api (entry_uri entry))) (\<lambda>info.
              if \<not> info_exists info
              then andThen (modify (\<lambda>s1.
                       s1\<lparr> index := \<lparr> entries = AList.delete key (entries (index s1)),
                                      totalSize = totalSize (index s1) - entry_size entry \<rparr> \<rparr>)) (\<lambda>_.
                   andThen (saveIndex api) (\<lambda>_.
                   ret None))
              else andThen (now api) (\<lambda>t.
                   andThen (modify (\<lambda>s1.
                       s1\<lparr> index := (index s1)\<lparr> entries :=
                              AList.update key (entry\<lparr> entry_timestamp := t \<rparr>)
                                (entries (index s1)) \<rparr> \<rparr>)) (\<lambda>_.
                   andThen (saveIndex api) (\<lambda>_.
                   ret (Some (entry_uri entry)))))) s)
     (\<lambda>x s. index_ok (index s)) (\<lambda>s. index_ok (index s))"
  proof (rule validI)
    fix s :: "'a ImageCache"
    assume ok: "index_ok (index s)"
    show "case (case map_of (entries (index s)) key of
          None \<Rightarrow> (Return None, s)
        | Some entry \<Rightarrow>
            andThen (io (getInfoAsync api (entry_uri entry))) (\<lambda>info.
              if \<not> info_exists info
              then andThen (modify (\<lambda>s1.
                       s1\<lparr> index := \<lparr> entries = AList.delete key (entries (index s1)),
                                      totalSize = totalSize (index s1) - entry_size entry \<rparr> \<rparr>)) (\<lambda>_.
                   andThen (saveIndex api) (\<lambda>_.
                   ret None))
              else andThen (now api) (\<lambda>t.
                   andThen (modify (\<lambda>s1.
                       s1\<lparr> index := (index s1)\<lparr> entries :=
                              AList.update key (entry\<lparr> entry_timestamp := t \<rparr>)
                                (entries (index s1)) \<rparr> \<rparr>)) (\<lambda>_.
                   andThen (saveIndex api) (\<lambda>_.
                   ret (Some (entry_uri entry)))))) s) of
            (Throw e, s') \<Rightarrow> index_ok (index s') | (Return x, s') \<Rightarrow> index_ok (index s')"
    proof (cases "map_of (entries (index s)) key")
      case None
      with ok show ?thesis by simp
    next
      case (Some entry)
      let ?J = "\<lambda>idx. index_ok idx \<and> map_of (entries idx) key = Some entry"
      have nowJ: "valid (\<lambda>s. ?J (index s)) (now api) (\<lambda>x s. ?J (index s))
                    (\<lambda>s. index_ok (index s))"
        by (rule valid_weaken [OF valid_now [of ?J]]) simp_all
      have ioJ: "valid (\<lambda>s. ?J (index s)) (io f) (\<lambda>x s. ?J (index s))
                    (\<lambda>s. index_ok (index s))" for f :: "'a \<Rightarrow> FileInfo outcome \<times> 'a"
        by (rule valid_weaken [OF valid_io [of ?J]]) simp_all
      have save: "valid (\<lambda>s. index_ok (index s)) (andThen (saveIndex api) (\<lambda>_. ret r))
                    (\<lambda>x s. index_ok (index s)) (\<lambda>s. index_ok (index s))"
        for r :: "string option"
        by (intro valid_andThen [where R = "\<lambda>x s. index_ok (index s)"] valid_saveIndex
            valid_ret)
      have stale: "valid (\<lambda>s. ?J (index s))
              (andThen (modify (\<lambda>s1.
                       s1\<lparr> index := \<lparr> entries = AList.delete key (entries (index s1)),
                                      totalSize = totalSize (index s1) - entry_size entry \<rparr> \<rparr>)) (\<lambda>_.
                   andThen (saveIndex api) (\<lambda>_. ret (None :: string option))))
              (\<lambda>x s. index_ok (index s)) (\<lambda>s. index_ok (index s))"
      proof (rule valid_andThen [where R = "\<lambda>x s. index_ok (index s)"])
        show "valid (\<lambda>s. ?J (index s))
                (modify (\<lambda>s1.
                       s1\<lparr> index := \<lparr> entries = AList.delete key (entries (index s1)),
                                      totalSize = totalSize (index s1) - entry_size entry \<rparr> \<rparr>))
                (\<lambda>x s. index_ok (index s)) (\<lambda>s. index_ok (index s))"
          by (rule valid_modify) (simp add: index_ok_remove map_of_SomeD)
      next
        fix x :: unit
        show "valid (\<lambda>s. index_ok (index s)) (andThen (saveIndex api) (\<lambda>_. ret (None :: string option)))
                (\<lambda>x s. index_ok (index s)) (\<lambda>s. index_ok (index s))"
          by (rule save)
      qed
      have touch: "valid (\<lambda>s. ?J (index s))
              (andThen (modify (\<lambda>s1.
                       s1\<lparr> index := (index s1)\<lparr> entries :=
                              AList.update key (entry\<lparr> entry_timestamp := t \<rparr>)
                                (entries (index s1)) \<rparr> \<rparr>)) (\<lambda>_.
                   andThen (saveIndex api) (\<lambda>_. ret (Some (entry_uri entry)))))
              (\<lambda>x s. index_ok (index s)) (\<lambda>s. index_ok (index s))" for t
      proof (rule valid_andThen [where R = "\<lambda>x s. index_ok (index s)"])
        show "valid (\<lambda>s. ?J (index s))
                (modify (\<lambda>s1.
                       s1\<lparr> index := (index s1)\<lparr> entries :=
                              AList.update key (entry\<lparr> entry_timestamp := t \<rparr>)
                                (entries (index s1)) \<rparr> \<rparr>))
                (\<lambda>x s. index_ok (index s)) (\<lambda>s. index_ok (index s))"
          by (rule valid_modify) (simp add: index_ok_touch)
      next
        fix x :: unit
        show "valid (\<lambda>s. index_ok (index s))
                (andThen (saveIndex api) (\<lambda>_. ret (Some (entry_uri entry))))
                (\<lambda>x s. index_ok (index s)) (\<lambda>s. index_ok (index s))"
          by (rule save)
      qed
      have live: "valid (\<lambda>s. ?J (index s))
              (andThen (now api) (\<lambda>t.
                   andThen (modify (\<lambda>s1.
                       s1\<lparr> index := (index s1)\<lparr> entries :=
                              AList.update key (entry\<lparr> entry_timestamp := t \<rparr>)
                                (entries (index s1)) \<rparr> \<rparr>)) (\<lambda>_.
                   andThen (saveIndex api) (\<lambda>_. ret (Some (entry_uri entry))))))
              (\<lambda>x s. index_ok (index s)) (\<lambda>s. index_ok (index s))"
        by (rule valid_andThen [OF nowJ]) (rule touch)
      have "valid (\<lambda>s. ?J (index s))
              (andThen (io (getInfoAsync api (entry_uri entry))) (\<lambda>info.
              if \<not> info_exists info
              then andThen (modify (\<lambda>s1.
                       s1\<lparr> index := \<lparr> entries = AList.delete key (entries (index s1)),
                                      totalSize = totalSize (index s1) - entry_size entry \<rparr> \<rparr>)) (\<lambda>_.
                   andThen (saveIndex api) (\<lambda>_.
                   ret None))
              else andThen (now api) (\<lambda>t.
                   andThen (modify (\<lambda>s1.
                       s1\<lparr> index := (index s1)\<lparr> entries :=
                              AList.update key (entry\<lparr> entry_timestamp := t \<rparr>)
                                (entries (index s1)) \<rparr> \<rparr>)) (\<lambda>_.
                   andThen (saveIndex api) (\<lambda>_.
                   ret (Some (entry_uri entry)))))))
              (\<lambda>x s. index_ok (index s)) (\<lambda>s. index_ok (index s))"
        by (rule valid_andThen [OF ioJ]) (simp add: stale live)
      from validD [OF this, of s] ok Some show ?thesis by simp
    qed
  qed
qed

lemma valid_delete:
  "valid (\<lambda>s. index_ok (index s)) (delete api u)
     (\<lambda>x s. index_ok (index s)) (\<lambda>s. index_ok (index s))"
  unfolding delete_def
proof (rule valid_tryCatch [where R = "\<lambda>s. index_ok (index s)"])
  fix e :: js_error
  show "valid (\<lambda>s. index_ok (index s)) (ret ()) (\<lambda>x s. index_ok (index s))
          (\<lambda>s :: 'a ImageCache. index_ok (index s))"
    by (simp add: valid_ret)
next
  show "valid (\<lambda>s. index_ok (index s))
     (andThen (io (deleteAsync api u)) (\<lambda>_ s.
          (case find_key (index s) u of
             None \<Rightarrow> (Return (), s)
           | Some key \<Rightarrow>
               if key = [] then (Return (), s)
               else
                 (case map_of (entries (index s)) key of
                    None \<Rightarrow> (Throw TypeError, s)
                  | Some e \<Rightarrow>
                      andThen (modify (\<lambda>s1.
                          s1\<lparr> index := \<lparr> entries = AList.delete key (entries (index s1)),
                                         totalSize = totalSize (index s1) - entry_size e \<rparr> \<rparr>)) (\<lambda>_.
                      saveIndex api) s))))
     (\<lambda>x s. index_ok (index s)) (\<lambda>s. index_ok (index s))"
  proof (rule valid_andThen [OF valid_io [of index_ok]])
    fix x :: unit
    show "valid (\<lambda>s. index_ok (index s))
       (\<lambda>s. case find_key (index s) u of
             None \<Rightarrow> (Return (), s)
           | Some key \<Rightarrow>
               if key = [] then (Return (), s)
               else
                 (case map_of (entries (index s)) key of
                    None \<Rightarrow> (Throw TypeError, s)
                  | Some e \<Rightarrow>
                      andThen (modify (\<lambda>s1.
                          s1\<lparr> index := \<lparr> entries = AList.delete key (entries (index s1)),
                                         totalSize = totalSize (index s1) - entry_size e \<rparr> \<rparr>)) (\<lambda>_.
                      saveIndex api) s))
       (\<lambda>x s. index_ok (index s)) (\<lambda>s. index_ok (index s))"
    proof (rule validI)
      fix s :: "'a ImageCache"
      assume ok: "index_ok (index s)"
      have rm: "case andThen (modify (\<lambda>s1.
                          s1\<lparr> index := \<lparr> entries = AList.delete key (entries (index s1)),
                                         totalSize = totalSize (index s1) - entry_size e \<rparr> \<rparr>)) (\<lambda>_.
                      saveIndex api) s of
                  (Throw e, s') \<Rightarrow> index_ok (index s') | (Return x, s') \<Rightarrow> index_ok (index s')"
        if "map_of (entries (index s)) key = Some e" for key e
      proof -
        have "valid (\<lambda>s'. s' = s)
                (andThen (modify (\<lambda>s1.
                          s1\<lparr> index := \<lparr> entries = AList.delete key (entries (index s1)),
                                         totalSize = totalSize (index s1) - entry_size e \<rparr> \<rparr>)) (\<lambda>_.
                      saveIndex api))
                (\<lambda>x s. index_ok (index s)) (\<lambda>s. index_ok (index s))"
        proof (rule valid_andThen [where R = "\<lambda>x s. index_ok (index s)"])
          show "valid (\<lambda>s'. s' = s)
                  (modify (\<lambda>s1.
                          s1\<lparr> index := \<lparr> entries = AList.delete key (entries (index s1)),
                                         totalSize = totalSize (index s1) - entry_size e \<rparr> \<rparr>))
                  (\<lambda>x s. index_ok (index s)) (\<lambda>s. index_ok (index s))"
            by (rule valid_modify) (simp add: index_ok_remove [OF ok] map_of_SomeD [OF that])
        next
          fix x :: unit
          show "valid (\<lambda>s. index_ok (index s)) (saveIndex api)
                  (\<lambda>x s. index_ok (index s)) (\<lambda>s. index_ok (index s))"
            by (rule valid_saveIndex)
        qed
        from validD [OF this, of s] show ?thesis by simp
      qed
      show "case (case find_key (index s) u of
             None \<Rightarrow> (Return (), s)
           | Some key \<Rightarrow>
               if key = [] then (Return (), s)
               else
                 (case map_of (entries (index s)) key of
                    None \<Rightarrow> (Throw TypeError, s)
                  | Some e \<Rightarrow>
                      andThen (modify (\<lambda>s1.
                          s1\<lparr> index := \<lparr> entries = AList.delete key (entries (index s1)),
                                         totalSize = totalSize (index s1) - entry_size e \<rparr> \<rparr>)) (\<lambda>_.
                      saveIndex api) s)) of
              (Throw e, s') \<Rightarrow> index_ok (index s') | (Return x, s') \<Rightarrow> index_ok (index s')"
        using ok rm by (simp split: option.splits)
    qed
  qed
qed

lemma valid_clearCache:
  "valid (\<lambda>s. index_ok (index s)) (clearCache api)
     (\<lambda>x s. index_ok (index s)) (\<lambda>s. index_ok (index s))"
  unfolding clearCache_def
proof (rule valid_tryCatch [where R = "\<lambda>s. index_ok (index s)"])
  fix e :: js_error
  show "valid (\<lambda>s. index_ok (index s)) (ret ()) (\<lambda>x s. index_ok (index s))
          (\<lambda>s :: 'a ImageCache. index_ok (index s))"
    by (simp add: valid_ret)
next
  have m: "valid (\<lambda>s. index_ok (index s)) (modify (\<lambda>s. s\<lparr> index := empty_index \<rparr>))
             (\<lambda>x s. index_ok (index s)) (\<lambda>s :: 'a ImageCache. index_ok (index s))"
    by (rule valid_modify) (simp add: index_ok_empty)
  show "valid (\<lambda>s. index_ok (index s))
          (andThen (io (deleteAsync api (CACHE_DIR api))) (\<lambda>_.
           andThen (io (makeDirectoryAsync api (CACHE_DIR api))) (\<lambda>_.
           andThen (modify (\<lambda>s. s\<lparr> index := empty_index \<rparr>)) (\<lambda>_.
           saveIndex api))))
          (\<lambda>x s. index_ok (index s)) (\<lambda>s. index_ok (index s))"
    by (intro valid_andThen [where R = "\<lambda>x s. index_ok (index s)"] valid_io valid_saveIndex m)
qed

text \<open>
  The invariant of the index is maintained by initialize, getCached, delete and
  clearCache, whatever the environment does, when the index files it hands out hold
  indexes that satisfy it.
\<close>

lemma index_ok_maintained:
  assumes "index_ok (index s)" and "persisted_ok api"
  shows "index_ok (index (snd (initialize api s)))"
    and "index_ok (index (snd (getCached api key s)))"
    and "index_ok (index (snd (delete api u s)))"
    and "index_ok (index (snd (clearCache api s)))"
proof -
  show "index_ok (index (snd (initialize api s)))"
    using validD [OF valid_initialize [OF assms(2)] assms(1)]
    by (auto split: prod.splits outcome.splits)
  show "index_ok (index (snd (getCached api key s)))"
    using validD [OF valid_getCached [OF assms(2)] assms(1), of key]
    by (auto split: prod.splits outcome.splits)
  show "index_ok (index (snd (delete api u s)))"
    using validD [OF valid_delete assms(1), of api u]
    by (auto split: prod.splits outcome.splits)
  show "index_ok (index (snd (clearCache api s)))"
    using validD [OF valid_clearCache assms(1), of api]
    by (auto split: prod.splits outcome.splits)
qed


subsection \<open>The running sum\<close>

lemma first_cacheImage:
  "cacheImage mem_fs ''photos/a.jpg'' (Some ''enhance'') (new_ImageCache collision_world) =
     (Return ''cache/aidit/a_enhance_1000.jpg'',
      \<lparr> index = \<lparr> entries =
          [(''a_enhance_1000'', \<lparr> entry_uri = ''cache/aidit/a_enhance_1000.jpg'',
                                  entry_timestamp = 1000, entry_size = 10 \<rparr>)],
          totalSize = 10 \<rparr>,
        initialized = True,
        world = \<lparr> files =
          [(''photos/a.jpg'', Blob 10),
           (''cache/aidit/index.json'', Doc (IndexJson \<lparr> entries =
              [(''a_enhance_1000'', \<lparr> entry_uri = ''cache/aidit/a_enhance_1000.jpg'',
                                      entry_timestamp = 1000, entry_size = 10 \<rparr>)],
              totalSize = 10 \<rparr>)),
           (''cache/aidit/a_enhance_1000.jpg'', Blob 10)],
          clock = [1000, 1001] \<rparr> \<rparr>)"
  by (simp add: cacheImage_def initialize_def cleanup_def saveIndex_def generateKey_def
      file_extension_def evictIfNeeded_def new_ImageCache_def empty_index_def CACHE_DIR_def
      EDITS_DIR_def indexPath_def JSON_stringify_def MAX_CACHE_SIZE_def pop_def at_index_def
      string_of_int_def string_of_nat.simps digit_char_def Let_def prog_defs mem_fs_def
      collision_world_def)

text \<open>
  C1. The running sum is not maintained when cacheImage generates a key that the index
  already has: the assignment replaces the entry, and its size is added to totalSize
  without the size of the replaced entry being taken off. Two calls for the same source
  and operation in the same millisecond leave one entry of 10 bytes and totalSize 20.
\<close>

theorem cacheImage_same_key_breaks_running_sum:
  "fst (cacheImage mem_fs ''photos/a.jpg'' (Some ''enhance'') (new_ImageCache collision_world))
     = Return ''cache/aidit/a_enhance_1000.jpg'' \<and>
   totalSize (index after_first_cacheImage) = 10 \<and>
   sum_list (map (\<lambda>(k, e). entry_size e) (entries (index after_first_cacheImage))) = 10 \<and>
   fst (cacheImage mem_fs ''photos/a.jpg'' (Some ''enhance'') after_first_cacheImage)
     = Return ''cache/aidit/a_enhance_1000.jpg'' \<and>
   map fst (entries (index after_second_cacheImage)) = [''a_enhance_1000''] \<and>
   sum_list (map (\<lambda>(k, e). entry_size e) (entries (index after_second_cacheImage))) = 10 \<and>
   totalSize (index after_second_cacheImage) = 20"
proof -
  have a: "after_first_cacheImage =
      \<lparr> index = \<lparr> entries =
          [(''a_enhance_1000'', \<lparr> entry_uri = ''cache/aidit/a_enhance_1000.jpg'',
                                  entry_timestamp = 1000, entry_size = 10 \<rparr>)],
          totalSize = 10 \<rparr>,
        initialized = True,
        world = \<lparr> files =
          [(''photos/a.jpg'', Blob 10),
           (''cache/aidit/index.json'', Doc (IndexJson \<lparr> entries =
              [(''a_enhance_1000'', \<lparr> entry_uri = ''cache/aidit/a_enhance_1000.jpg'',
                                      entry_timestamp = 1000, entry_size = 10 \<rparr>)],
              totalSize = 10 \<rparr>)),
           (''cache/aidit/a_enhance_1000.jpg'', Blob 10)],
          clock = [1000, 1001] \<rparr> \<rparr>"
    by (simp add: after_first_cacheImage_def first_cacheImage)
  have b: "cacheImage mem_fs ''photos/a.jpg'' (Some ''enhance'') after_first_cacheImage =
     (Return ''cache/aidit/a_enhance_1000.jpg'',
      \<lparr> index = \<lparr> entries =
          [(''a_enhance_1000'', \<lparr> entry_uri = ''cache/aidit/a_enhance_1000.jpg'',
                                  entry_timestamp = 1001, entry_size = 10 \<rparr>)],
          totalSize = 20 \<rparr>,
        initialized = True,
        world = \<lparr> files =
          [(''photos/a.jpg'', Blob 10),
           (''cache/aidit/index.json'', Doc (IndexJson \<lparr> entries =
              [(''a_enhance_1000'', \<lparr> entry_uri = ''cache/aidit/a_enhance_1000.jpg'',
                                      entry_timestamp = 1001, entry_size = 10 \<rparr>)],
              totalSize = 20 \<rparr>)),
           (''cache/aidit/a_enhance_1000.jpg'', Blob 10)],
          clock = [] \<rparr> \<rparr>)"
    unfolding a
    by (simp add: cacheImage_def initialize_def saveIndex_def generateKey_def
      file_extension_def evictIfNeeded_def CACHE_DIR_def
      indexPath_def JSON_stringify_def MAX_CACHE_SIZE_def pop_def at_index_def
      string_of_int_def string_of_nat.simps digit_char_def Let_def prog_defs mem_fs_def)
  have 1: "fst (cacheImage mem_fs ''photos/a.jpg'' (Some ''enhance'')
              (new_ImageCache collision_world)) = Return ''cache/aidit/a_enhance_1000.jpg''"
    by (simp add: first_cacheImage)
  have 2: "totalSize (index after_first_cacheImage) = 10"
    "sum_list (map (\<lambda>(k, e). entry_size e) (entries (index after_first_cacheImage))) = 10"
    by (simp_all add: a)
  have 3: "fst (cacheImage mem_fs ''photos/a.jpg'' (Some ''enhance'') after_first_cacheImage)
     = Return ''cache/aidit/a_enhance_1000.jpg''"
    by (simp add: b)
  have 4: "map fst (entries (index after_second_cacheImage)) = [''a_enhance_1000'']"
    "sum_list (map (\<lambda>(k, e). entry_size e) (entries (index after_second_cacheImage))) = 10"
    "totalSize (index after_second_cacheImage) = 20"
    by (simp_all add: after_second_cacheImage_def b)
  show ?thesis
    by (intro conjI 1 2 3 4)
qed

end
